theory Spec2Isabelle
  imports Main
begin

section \<open>Identity resolution and the delivery layer\<close>

text \<open>
  The tracker is JavaScript. A value that the code only tests for truthiness (the
  participant id) is a \<open>jsval\<close>; \<open>truthy\<close> is JavaScript's ToBoolean on it.
  Times are integers (milliseconds, as \<open>Date.now()\<close> returns them); a handler reads the
  clock once and the model passes that reading as \<open>now\<close>.
\<close>

datatype jsval = JUndefined | JNull | JStr string | JNum int | JBool bool

fun truthy :: "jsval \<Rightarrow> bool" where
  "truthy JUndefined = False"
| "truthy JNull = False"
| "truthy (JStr s) = (s \<noteq> [])"
| "truthy (JNum n) = (n \<noteq> 0)"
| "truthy (JBool b) = b"

text \<open>
  The imported \<open>getParticipantId\<close>: it may not be a function, it may throw, or it returns
  a value. \<open>windowParticipantId\<close> is the global \<open>window.participantId\<close>.
\<close>

datatype provider = NotAFunction | Throws | Returns jsval

record identity =
  getParticipantId :: provider
  windowParticipantId :: jsval

record 'd envelope =
  participant_id :: jsval
  event_type :: string
  event_data :: 'd
  timestamp :: int

datatype log_msg =
    NoParticipantId string
  | FetchFailed
  | SendException
  | ApiClientUnavailable
  | PostFailed

record fetch_init =
  http_method :: string
  content_type :: string
  body :: string
  keepalive :: bool
  credentials :: "string option"

datatype 'd effect =
    SendBeacon string string
  | Fetch string fetch_init
  | ApiPostWithoutAuth string "'d envelope"
  | ConsoleWarn log_msg
  | ConsoleError log_msg

text \<open>
  What the browser does with one transport call. \<open>stringify\<close> is \<open>JSON.stringify\<close> on
  the payload (\<open>None\<close>: it throws, as on a cyclic object). \<open>sendBeacon\<close> may throw or
  return a flag the code ignores; \<open>fetch\<close> may throw, or return a promise that resolves
  or rejects.
\<close>

datatype beacon_behaviour = BeaconQueued | BeaconRefused | BeaconThrows
datatype fetch_behaviour = FetchResolves | FetchRejects | FetchThrows

record 'd transport =
  beaconAvailable :: bool
  stringify :: "'d envelope \<Rightarrow> string option"
  beacon :: beacon_behaviour
  fetchResult :: fetch_behaviour

datatype outcome = Returned | Raised

text \<open>
  The body of the \<open>try\<close> block of \<open>_sendPayload\<close> (unnamed/part_001, lines 95-107): the
  effects so far, and whether an exception left the block.
\<close>

definition sendPayload_try :: "'d transport \<Rightarrow> string \<Rightarrow> 'd envelope \<Rightarrow> 'd effect list \<times> bool" where
  "sendPayload_try tr url payload =
     (if beaconAvailable tr then
        (case stringify tr payload of
           None \<Rightarrow> ([], True)
         | Some blob \<Rightarrow> ([SendBeacon url blob], beacon tr = BeaconThrows))
      else
        (case stringify tr payload of
           None \<Rightarrow> ([], True)
         | Some b \<Rightarrow>
             (let req = \<lparr>http_method = ''POST'', content_type = ''application/json'',
                         body = b, keepalive = True, credentials = Some ''omit''\<rparr>
              in case fetchResult tr of
                   FetchThrows \<Rightarrow> ([Fetch url req], True)
                 | FetchRejects \<Rightarrow> ([Fetch url req, ConsoleWarn FetchFailed], False)
                 | FetchResolves \<Rightarrow> ([Fetch url req], False))))"

text \<open>
  \<open>_sendPayload\<close> of unnamed/part_001: the \<open>catch\<close> logs and swallows. The flag
  that \<open>sendBeacon\<close> returns is not read, so a refused beacon leaves no trace.
\<close>

definition sendPayload :: "'d transport \<Rightarrow> string \<Rightarrow> 'd envelope \<Rightarrow> 'd effect list \<times> outcome" where
  "sendPayload tr url payload =
     (case sendPayload_try tr url payload of
        (effs, True) \<Rightarrow> (effs @ [ConsoleWarn SendException], Returned)
      | (effs, False) \<Rightarrow> (effs, Returned))"

text \<open>
  \<open>_sendPayload\<close> of unnamed/part_000 (lines 445-465): the url is the fixed path, and
  the options object of \<open>fetch\<close> has no \<open>credentials\<close> member, so the browser's
  default (same-origin: cookies are attached) applies.
\<close>

definition sendPayload_part000_try :: "'d transport \<Rightarrow> 'd envelope \<Rightarrow> 'd effect list \<times> bool" where
  "sendPayload_part000_try tr payload =
     (let url = ''/api/v1/behavior/log'' in
      if beaconAvailable tr then
        (case stringify tr payload of
           None \<Rightarrow> ([], True)
         | Some blob \<Rightarrow> ([SendBeacon url blob], beacon tr = BeaconThrows))
      else
        (case stringify tr payload of
           None \<Rightarrow> ([], True)
         | Some b \<Rightarrow>
             (let req = \<lparr>http_method = ''POST'', content_type = ''application/json'',
                         body = b, keepalive = True, credentials = None\<rparr>
              in case fetchResult tr of
                   FetchThrows \<Rightarrow> ([Fetch url req], True)
                 | FetchRejects \<Rightarrow> ([Fetch url req, ConsoleWarn FetchFailed], False)
                 | FetchResolves \<Rightarrow> ([Fetch url req], False))))"

definition sendPayload_part000 :: "'d transport \<Rightarrow> 'd envelope \<Rightarrow> 'd effect list \<times> outcome" where
  "sendPayload_part000 tr payload =
     (case sendPayload_part000_try tr payload of
        (effs, True) \<Rightarrow> (effs @ [ConsoleWarn SendException], Returned)
      | (effs, False) \<Rightarrow> (effs, Returned))"

text \<open>
  \<open>_sendPayload\<close> of the first variant of behavior_tracker.js (lines 130-142): it posts
  through \<open>window.apiClient.postWithoutAuth\<close>, which is not part of this repository.
  \<open>window.apiClient\<close> may be undefined, null (the guard reads a property of it and a
  TypeError leaves the function), an object without the function, or an object with it;
  the call may then throw, return something that is no promise (\<open>.catch\<close> then raises),
  or return a promise that resolves or rejects. Nothing here is inside a \<open>try\<close>.
\<close>

datatype post_behaviour = PostResolves | PostRejects | PostThrows | PostReturnsNoPromise

datatype api_client =
    ApiClientUndefined
  | ApiClientNull
  | ApiClientWithoutPost
  | ApiClient post_behaviour

definition sendPayload_apiClient :: "api_client \<Rightarrow> 'd envelope \<Rightarrow> 'd effect list \<times> outcome" where
  "sendPayload_apiClient ac payload =
     (case ac of
        ApiClientUndefined \<Rightarrow> ([ConsoleError ApiClientUnavailable], Returned)
      | ApiClientNull \<Rightarrow> ([], Raised)
      | ApiClientWithoutPost \<Rightarrow> ([ConsoleError ApiClientUnavailable], Returned)
      | ApiClient post \<Rightarrow>
          (case post of
             PostThrows \<Rightarrow> ([ApiPostWithoutAuth ''/behavior/log'' payload], Raised)
           | PostReturnsNoPromise \<Rightarrow> ([ApiPostWithoutAuth ''/behavior/log'' payload], Raised)
           | PostResolves \<Rightarrow> ([ApiPostWithoutAuth ''/behavior/log'' payload], Returned)
           | PostRejects \<Rightarrow>
               ([ApiPostWithoutAuth ''/behavior/log'' payload, ConsoleWarn PostFailed], Returned)))"

text \<open>The transport calls among the effects, and the requests \<open>fetch\<close> was given.\<close>

fun isTransportCall :: "'d effect \<Rightarrow> bool" where
  "isTransportCall (SendBeacon _ _) = True"
| "isTransportCall (Fetch _ _) = True"
| "isTransportCall (ApiPostWithoutAuth _ _) = True"
| "isTransportCall _ = False"

fun fetchRequests :: "'d effect list \<Rightarrow> fetch_init list" where
  "fetchRequests [] = []"
| "fetchRequests (Fetch _ r # es) = r # fetchRequests es"
| "fetchRequests (_ # es) = fetchRequests es"

text \<open>
  \<open>logEvent\<close> (behavior_tracker.js lines 145-173, unnamed/part_001 lines 114-127; the
  two differ in layout only). \<open>send\<close> gives the effects of the \<open>_sendPayload\<close> of the
  variant. \<open>logEvent\<close> has no handler around that call: where \<open>_sendPayload\<close> can raise
  (the first variant, with a malformed \<open>window.apiClient\<close>), so does \<open>logEvent\<close>, after
  these effects.
\<close>

definition providerValue :: "identity \<Rightarrow> jsval" where
  "providerValue idn = (case getParticipantId idn of Returns v \<Rightarrow> v | _ \<Rightarrow> JNull)"

definition resolveParticipantId :: "identity \<Rightarrow> jsval" where
  "resolveParticipantId idn =
     (let p = providerValue idn
      in if \<not> truthy p \<and> truthy (windowParticipantId idn) then windowParticipantId idn else p)"

definition logEvent ::
  "('d envelope \<Rightarrow> 'd effect list) \<Rightarrow> identity \<Rightarrow> int \<Rightarrow> string \<Rightarrow> 'd \<Rightarrow> 'd effect list" where
  "logEvent send idn now eventType eventData =
     (let pid = resolveParticipantId idn
      in if \<not> truthy pid then [ConsoleWarn (NoParticipantId eventType)]
         else send \<lparr>participant_id = pid, event_type = eventType,
                     event_data = eventData, timestamp = now\<rparr>)"

section \<open>Click records\<close>

text \<open>
  A DOM element as \<open>_isInteractive\<close> and \<open>_getInteractiveContent\<close> read it: the tag
  name, the \<open>type\<close> property, \<open>value\<close> and \<open>textContent\<close> (\<open>None\<close> for null or
  undefined), whether it has a \<open>contenteditable\<close> attribute, its \<open>role\<close> attribute,
  and the answer of \<open>el.matches\<close> to the selector for links and tab stops.
  Strings are lists of 8-bit characters; the white space of \<open>trim\<close> and of the
  regular expression class \<open>\s\<close> is the part of it in that range.
\<close>

record element =
  tagName :: string
  inputType :: string
  elValue :: "string option"
  textContent :: "string option"
  hasContentEditable :: bool
  roleAttribute :: "string option"
  matchesLinkOrTabStop :: bool

record click_record =
  tag :: string
  interactive :: bool
  content :: "string option"
  content_len :: int

definition toLowerChar :: "char \<Rightarrow> char" where
  "toLowerChar c =
     (let n = (of_char c :: nat)
      in if 65 \<le> n \<and> n \<le> 90 then char_of (n + 32) else c)"

definition toLowerCase :: "string \<Rightarrow> string" where
  "toLowerCase s = map toLowerChar s"

definition isWhitespace :: "char \<Rightarrow> bool" where
  "isWhitespace c = ((of_char c :: nat) \<in> {9, 10, 11, 12, 13, 32, 160})"

definition trim :: "string \<Rightarrow> string" where
  "trim s = rev (dropWhile isWhitespace (rev (dropWhile isWhitespace s)))"

text \<open>\<open>replace(/\s+/g, ' ')\<close>: every maximal run of white space becomes one space.\<close>

function collapseWhitespace :: "string \<Rightarrow> string" where
  "collapseWhitespace [] = []"
| "collapseWhitespace (c # cs) =
     (if isWhitespace c then CHR '' '' # collapseWhitespace (dropWhile isWhitespace cs)
      else c # collapseWhitespace cs)"
  by pat_completeness auto
termination
  by (relation "measure length") (auto simp: length_dropWhile_le le_imp_less_Suc)

text \<open>
  \<open>text.slice(0, e)\<close>: a negative end counts from the end of the string, and the end is
  clamped to the string.
\<close>

definition slice0 :: "string \<Rightarrow> int \<Rightarrow> string" where
  "slice0 s e =
     (let n = int (length s); k = (if e < 0 then max (n + e) 0 else min e n)
      in take (nat k) s)"

definition isInteractive :: "element \<Rightarrow> bool" where
  "isInteractive el =
     (let t = toLowerCase (tagName el)
      in if t \<in> set [''button'', ''input'', ''select'', ''textarea'', ''label''] then True
         else if hasContentEditable el then True
         else if roleAttribute el = Some ''button'' then True
         else if matchesLinkOrTabStop el then True
         else False)"

definition getInteractiveContent :: "element \<Rightarrow> int \<Rightarrow> string option" where
  "getInteractiveContent el maxLen =
     (let t = toLowerCase (tagName el)
      in if t = ''input'' \<and> (inputType el = ''password'' \<or> inputType el = ''file'') then None
         else
           (let text0 = (if t = ''input'' \<or> t = ''textarea''
                         then (case elValue el of None \<Rightarrow> [] | Some v \<Rightarrow> v)
                         else (case textContent el of None \<Rightarrow> [] | Some v \<Rightarrow> v));
                text1 = collapseWhitespace (trim text0);
                text2 = (if int (length text1) > maxLen then slice0 text1 maxLen else text1)
            in if text2 = [] then None else Some text2))"

text \<open>
  \<open>_buildClickRecord\<close>, without the time stamp, the CSS selector and the geometry
  (floating-point quotients of the click position), none of which the content depends on.
\<close>

definition buildClickRecord :: "element \<Rightarrow> int \<Rightarrow> click_record" where
  "buildClickRecord target maxLen =
     (let inter = isInteractive target;
          cont = (if inter then getInteractiveContent target maxLen else None)
      in \<lparr>tag = toLowerCase (tagName target), interactive = inter, content = cont,
          content_len = (case cont of None \<Rightarrow> 0 | Some c \<Rightarrow> int (length c))\<rparr>)"

text \<open>Two elements for concrete runs: a password field and a button with a label.\<close>

definition passwordInput :: element where
  "passwordInput =
     \<lparr>tagName = ''INPUT'', inputType = ''password'', elValue = Some ''hunter2'',
      textContent = Some [], hasContentEditable = False, roleAttribute = None,
      matchesLinkOrTabStop = False\<rparr>"

definition labelledButton :: element where
  "labelledButton =
     \<lparr>tagName = ''BUTTON'', inputType = ''submit'', elValue = Some [],
      textContent = Some ''  Run   all tests '', hasContentEditable = False,
      roleAttribute = None, matchesLinkOrTabStop = False\<rparr>"

section \<open>The edit-cycle analyzer (behavior tracker, first variant of the module)\<close>

text \<open>
  A handler of the tracker changes fields of the tracker and calls \<open>logEvent\<close> and
  \<open>document.dispatchEvent\<close>. The model returns the new tracker and the list of these
  calls, in the order the code makes them; \<open>deliver\<close> below runs the \<open>logEvent\<close> calls.
  Each call is taken to return, as it does when \<open>_sendPayload\<close> catches what it meets
  (unnamed/part_000, unnamed/part_001) or \<open>window.apiClient\<close> is well formed.
  Console output and the text of a hint message (drawn with \<open>Math.random\<close>) are left out.
\<close>

datatype editor = Html | Css | Js

datatype severity = Low | Medium | High

datatype edit_record =
    EditCycleRecord (er_editor: editor) (er_timestamp: int) (er_duration: int)
      (er_netChange: int) (er_absoluteChange: int) (er_startLength: int)
      (er_endLength: int) (er_consecutiveEdits: int)
  | ChangeRecord (cr_type: string) (cr_editor: editor) (cr_timestamp: int)
      (cr_changeAmount: int) (cr_currentLength: int)

fun isEditCycle :: "edit_record \<Rightarrow> bool" where
  "isEditCycle (EditCycleRecord _ _ _ _ _ _ _ _) = True"
| "isEditCycle (ChangeRecord _ _ _ _ _) = False"

record problem_event =
  pe_editor :: editor
  pe_timestamp :: int
  pe_consecutiveEdits :: int
  pe_severity :: severity

record buffer_entry =
  be_timestamp :: int
  be_length :: int
  be_change :: int
  be_content :: string

record editor_state =
  lastContent :: string
  lastLength :: int
  lastMeaningfulEdit :: int
  isDeleting :: bool
  deleteStartTime :: int
  deleteStartLength :: int
  consecutiveEdits :: int
  editBuffer :: "buffer_entry list"

record monitoring_config =
  minChangeThreshold :: int
  meaningfulEditTimeout :: int
  problemDetectionThreshold :: int
  maxHistoryLength :: int
  hintThreshold :: int
  cooldownPeriod :: int

record tracker =
  codeMonitorStates :: "editor \<Rightarrow> editor_state"
  problemEvents :: "problem_event list"
  significantEdits :: "edit_record list"
  lastHintTime :: int

datatype dispatched =
    ProblemHintNeeded editor int int
  | IdleHintNeeded int string

datatype event_data =
    SignificantEditsData int "edit_record list" int
  | LargeAdditionData edit_record
  | CodingProblemData editor int severity int
  | PageClickData string int "click_record list" bool
  | DomClickStatsData string int "click_record list"
  | UserIdleData int int int bool string string
  | IdleHintDisplayedData string int string int

datatype action =
    LogEvent string "event_data"
  | DispatchEvent dispatched

definition createEditorState :: editor_state where
  "createEditorState =
     \<lparr>lastContent = [], lastLength = 0, lastMeaningfulEdit = 0, isDeleting = False,
      deleteStartTime = 0, deleteStartLength = 0, consecutiveEdits = 0, editBuffer = []\<rparr>"

definition defaultMonitoringConfig :: monitoring_config where
  "defaultMonitoringConfig =
     \<lparr>minChangeThreshold = 10, meaningfulEditTimeout = 3000, problemDetectionThreshold = 3,
      maxHistoryLength = 100, hintThreshold = 3, cooldownPeriod = 30000\<rparr>"

definition newTracker :: tracker where
  "newTracker =
     \<lparr>codeMonitorStates = (\<lambda>_. createEditorState), problemEvents = [],
      significantEdits = [], lastHintTime = 0\<rparr>"

definition resetCodeMonitoring :: "tracker \<Rightarrow> tracker" where
  "resetCodeMonitoring t =
     t\<lparr>codeMonitorStates := (\<lambda>_. createEditorState), problemEvents := [], significantEdits := []\<rparr>"

definition calculateProblemSeverity :: "int \<Rightarrow> severity" where
  "calculateProblemSeverity n = (if n \<ge> 10 then High else if n \<ge> 5 then Medium else Low)"

text \<open>\<open>Array.prototype.slice(-5)\<close>: the last five elements, or all when there are fewer.\<close>

definition sliceLast5 :: "'a list \<Rightarrow> 'a list" where
  "sliceLast5 xs = drop (length xs - 5) xs"

text \<open>\<open>push\<close> followed by the \<open>shift\<close> that keeps the history bounded.\<close>

definition shiftIfOver :: "int \<Rightarrow> 'a list \<Rightarrow> 'a list" where
  "shiftIfOver cap xs = (if int (length xs) > cap then tl xs else xs)"

definition submitSignificantEdits :: "int \<Rightarrow> tracker \<Rightarrow> action list" where
  "submitSignificantEdits now t =
     (if significantEdits t = [] then []
      else (let editsToSubmit = sliceLast5 (significantEdits t)
            in [LogEvent ''significant_edits''
                  (SignificantEditsData (int (length editsToSubmit)) editsToSubmit now)]))"

definition triggerProblemHint ::
  "monitoring_config \<Rightarrow> int \<Rightarrow> editor \<Rightarrow> int \<Rightarrow> int \<Rightarrow> tracker \<Rightarrow> tracker \<times> action list" where
  "triggerProblemHint cfg now ed editCount ts t =
     (if now - lastHintTime t < cooldownPeriod cfg then (t, [])
      else (t\<lparr>lastHintTime := now\<rparr>, [DispatchEvent (ProblemHintNeeded ed editCount ts)]))"

definition submitProblemEvent :: "problem_event \<Rightarrow> action list" where
  "submitProblemEvent pe =
     [LogEvent ''coding_problem''
        (CodingProblemData (pe_editor pe) (pe_consecutiveEdits pe) (pe_severity pe) (pe_timestamp pe))]"

definition recordProblemEvent ::
  "monitoring_config \<Rightarrow> int \<Rightarrow> editor \<Rightarrow> int \<Rightarrow> int \<Rightarrow> tracker \<Rightarrow> tracker \<times> action list" where
  "recordProblemEvent cfg now ed consec ts t =
     (let problemEvent = \<lparr>pe_editor = ed, pe_timestamp = ts, pe_consecutiveEdits = consec,
                           pe_severity = calculateProblemSeverity consec\<rparr>;
          t1 = t\<lparr>problemEvents := problemEvents t @ [problemEvent]\<rparr>;
          (t2, hint) = (if consec \<ge> hintThreshold cfg
                        then triggerProblemHint cfg now ed consec ts t1 else (t1, []))
      in (t2, hint @ submitProblemEvent problemEvent))"

definition completeEditCycle ::
  "monitoring_config \<Rightarrow> int \<Rightarrow> editor \<Rightarrow> int \<Rightarrow> int \<Rightarrow> tracker \<Rightarrow> tracker \<times> action list" where
  "completeEditCycle cfg now ed ts finalLength t =
     (let st = codeMonitorStates t ed;
          deleteDuration = ts - deleteStartTime st;
          netChange = finalLength - deleteStartLength st;
          absoluteChange = \<bar>netChange\<bar>;
          (t3, acts) =
            (if absoluteChange \<ge> minChangeThreshold cfg then
               (let editRecord = EditCycleRecord ed ts deleteDuration netChange absoluteChange
                                   (deleteStartLength st) finalLength (consecutiveEdits st);
                    t1 = t\<lparr>significantEdits :=
                            shiftIfOver (maxHistoryLength cfg) (significantEdits t @ [editRecord])\<rparr>;
                    (t2, a1) = (if consecutiveEdits st \<ge> problemDetectionThreshold cfg
                                then recordProblemEvent cfg now ed (consecutiveEdits st) ts t1
                                else (t1, []));
                    a2 = (if int (length (significantEdits t2)) \<ge> 5 \<or>
                             consecutiveEdits st \<ge> problemDetectionThreshold cfg
                          then submitSignificantEdits now t2 else [])
                in (t2, a1 @ a2))
             else (t, []))
      in (t3\<lparr>codeMonitorStates := (codeMonitorStates t3)
               (ed := (codeMonitorStates t3 ed)\<lparr>isDeleting := False, deleteStartTime := 0,
                        deleteStartLength := 0, consecutiveEdits := 0\<rparr>)\<rparr>,
          acts))"

definition recordMeaningfulEdit ::
  "monitoring_config \<Rightarrow> int \<Rightarrow> editor \<Rightarrow> string \<Rightarrow> int \<Rightarrow> int \<Rightarrow> int \<Rightarrow> tracker
     \<Rightarrow> tracker \<times> action list" where
  "recordMeaningfulEdit cfg now ed editType changeAmount currentLength ts t =
     (let editRecord = ChangeRecord editType ed ts changeAmount currentLength;
          t1 = t\<lparr>significantEdits := significantEdits t @ [editRecord]\<rparr>;
          acts = (if changeAmount \<ge> 50 then [LogEvent ''large_addition'' (LargeAdditionData editRecord)]
                  else if length (significantEdits t1) mod 5 = 0 then submitSignificantEdits now t1
                  else []);
          t2 = t1\<lparr>significantEdits := shiftIfOver (maxHistoryLength cfg) (significantEdits t1)\<rparr>
      in (t2, acts))"

definition handleDeletion :: "editor \<Rightarrow> int \<Rightarrow> int \<Rightarrow> tracker \<Rightarrow> tracker" where
  "handleDeletion ed currentLength ts t =
     (let st = codeMonitorStates t ed
      in if \<not> isDeleting st then
           t\<lparr>codeMonitorStates := (codeMonitorStates t)
               (ed := st\<lparr>isDeleting := True, deleteStartTime := ts,
                         deleteStartLength := lastLength st,
                         consecutiveEdits := consecutiveEdits st + 1\<rparr>)\<rparr>
         else t)"

definition handleAddition ::
  "monitoring_config \<Rightarrow> editor \<Rightarrow> int \<Rightarrow> int \<Rightarrow> int \<Rightarrow> int \<Rightarrow> tracker \<Rightarrow> tracker \<times> action list" where
  "handleAddition cfg ed lengthChange currentLength ts timeSinceLastEdit t =
     (let (t1, acts) =
            (if isDeleting (codeMonitorStates t ed) then completeEditCycle cfg ts ed ts currentLength t
             else if lengthChange \<ge> minChangeThreshold cfg \<and>
                     timeSinceLastEdit > meaningfulEditTimeout cfg
             then recordMeaningfulEdit cfg ts ed ''addition'' lengthChange currentLength ts t
             else (t, []));
          st1 = codeMonitorStates t1 ed
      in (t1\<lparr>codeMonitorStates := (codeMonitorStates t1)
               (ed := st1\<lparr>consecutiveEdits := consecutiveEdits st1 + 1,
                          lastMeaningfulEdit := ts\<rparr>)\<rparr>,
          acts))"

definition smartRecordCodeChange ::
  "monitoring_config \<Rightarrow> int \<Rightarrow> editor \<Rightarrow> string \<Rightarrow> tracker \<Rightarrow> tracker \<times> action list" where
  "smartRecordCodeChange cfg now ed currentContent t =
     (let st = codeMonitorStates t ed;
          currentLength = int (length currentContent);
          previousLength = lastLength st;
          lengthChange = currentLength - previousLength;
          t0 = t\<lparr>codeMonitorStates := (codeMonitorStates t)
                 (ed := st\<lparr>lastContent := currentContent, lastLength := currentLength\<rparr>)\<rparr>;
          timeSinceLastEdit = now - lastMeaningfulEdit st;
          (t1, acts) =
            (if lengthChange < 0 then (handleDeletion ed currentLength now t0, [])
             else if lengthChange > 0
             then handleAddition cfg ed lengthChange currentLength now timeSinceLastEdit t0
             else (t0, []));
          st1 = codeMonitorStates t1 ed;
          buf = editBuffer st1 @ [\<lparr>be_timestamp = now, be_length = currentLength,
                                   be_change = lengthChange, be_content = currentContent\<rparr>];
          buf' = (if length buf > 20 then tl buf else buf)
      in (t1\<lparr>codeMonitorStates := (codeMonitorStates t1) (ed := st1\<lparr>editBuffer := buf'\<rparr>)\<rparr>,
          acts))"

text \<open>A run of editor signals: each is a surface, the clock reading and the new content.\<close>

fun runSignals ::
  "monitoring_config \<Rightarrow> (editor \<times> int \<times> string) list \<Rightarrow> tracker \<Rightarrow> tracker \<times> action list" where
  "runSignals cfg [] t = (t, [])"
| "runSignals cfg ((ed, now, currentContent) # sigs) t =
     (let (t1, a1) = smartRecordCodeChange cfg now ed currentContent t;
          (t2, a2) = runSignals cfg sigs t1
      in (t2, a1 @ a2))"

text \<open>Running the \<open>logEvent\<close> calls of a handler, with the variant's send function.\<close>

fun deliver ::
  "(event_data envelope \<Rightarrow> event_data effect list) \<Rightarrow> identity \<Rightarrow> int \<Rightarrow> action list
     \<Rightarrow> event_data effect list" where
  "deliver send idn now [] = []"
| "deliver send idn now (LogEvent et ed # as) = logEvent send idn now et ed @ deliver send idn now as"
| "deliver send idn now (DispatchEvent _ # as) = deliver send idn now as"

text \<open>The \<open>logEvent\<close> calls of a given event type among the actions.\<close>

fun loggedAs :: "string \<Rightarrow> action list \<Rightarrow> event_data list" where
  "loggedAs et [] = []"
| "loggedAs et (LogEvent et' d # as) = (if et' = et then d # loggedAs et as else loggedAs et as)"
| "loggedAs et (DispatchEvent _ # as) = loggedAs et as"

text \<open>
  A signal completes an edit cycle when the surface is in the deleting state and the new
  content is longer than the last one (\<open>_handleAddition\<close> then calls
  \<open>_completeEditCycle\<close>).
\<close>

definition completesCycle :: "tracker \<Rightarrow> editor \<Rightarrow> string \<Rightarrow> bool" where
  "completesCycle t ed newContent =
     (isDeleting (codeMonitorStates t ed) \<and>
      lastLength (codeMonitorStates t ed) < int (length newContent))"

text \<open>
  The three fields of a surface that decide its later consecutive-edit counts, and what
  one signal with content of length \<open>len\<close> does to them.
\<close>

definition cycleView :: "editor_state \<Rightarrow> int \<times> bool \<times> int" where
  "cycleView st = (lastLength st, isDeleting st, consecutiveEdits st)"

definition nextView :: "int \<Rightarrow> int \<times> bool \<times> int \<Rightarrow> int \<times> bool \<times> int" where
  "nextView len v =
     (case v of (l, d, n) \<Rightarrow>
        if len < l then (len, True, if d then n else n + 1)
        else if len > l then (len, False, if d then 1 else n + 1)
        else (len, d, n))"

text \<open>A tracker in which every surface is in the deleting state, for concrete runs.\<close>

definition deletingTracker :: tracker where
  "deletingTracker =
     newTracker\<lparr>codeMonitorStates := (\<lambda>_. createEditorState\<lparr>lastLength := 20, isDeleting := True,
        deleteStartTime := 2000, deleteStartLength := 20, consecutiveEdits := 2\<rparr>)\<rparr>"

text \<open>The same tracker with a history of one hundred records, the default cap.\<close>

definition fullHistoryTracker :: tracker where
  "fullHistoryTracker =
     deletingTracker\<lparr>significantEdits := replicate 100 (ChangeRecord ''addition'' Js 0 10 10)\<rparr>"


definition fiveSentTracker :: tracker where
  "fiveSentTracker =
     deletingTracker\<lparr>significantEdits := replicate 5 (ChangeRecord ''addition'' Js 0 10 10)\<rparr>"

text \<open>
  A run on the JavaScript surface from a new tracker: two additions and the start of a
  deletion, which leaves the surface deleting with three consecutive edits.
\<close>

definition struggleSignals :: "(editor \<times> int \<times> string) list" where
  "struggleSignals =
     [(Js, 1000, replicate 100 CHR ''a''), (Js, 2000, replicate 101 CHR ''a''),
      (Js, 3000, replicate 100 CHR ''a'')]"

definition struggleTracker :: tracker where
  "struggleTracker = fst (runSignals defaultMonitoringConfig struggleSignals newTracker)"



section \<open>The click batch (behavior tracker, first variant of the module)\<close>

text \<open>
  \<open>_clickBatchTimer\<close> holds the pending timer, modelled by the time at which it is due
  (\<open>setTimeout\<close> at \<open>now\<close> with delay \<open>d\<close> is due at \<open>now + d\<close>). \<open>page\<close> is
  \<open>window.location.pathname\<close>.
\<close>

record click_config =
  batch :: bool
  flushInterval :: int
  maxBatchSize :: int
  includeTextMaxLen :: int

record click_state =
  clickBatch :: "click_record list"
  clickBatchTimer :: "int option"

definition defaultClickConfig :: click_config where
  "defaultClickConfig =
     \<lparr>batch = True, flushInterval = 1200, maxBatchSize = 50, includeTextMaxLen = 120\<rparr>"

definition emptyClickState :: click_state where
  "emptyClickState = \<lparr>clickBatch = [], clickBatchTimer = None\<rparr>"

definition sendClickBatch :: "string \<Rightarrow> click_record list \<Rightarrow> bool \<Rightarrow> action list" where
  "sendClickBatch page items isFinal =
     [LogEvent ''page_click'' (PageClickData page (int (length items)) items isFinal)]"

definition flushClickBatch :: "string \<Rightarrow> bool \<Rightarrow> click_state \<Rightarrow> click_state \<times> action list" where
  "flushClickBatch page isFinal s =
     (if clickBatch s = [] then (s, [])
      else (let items = clickBatch s;
                s1 = s\<lparr>clickBatch := []\<rparr>;
                s2 = s1\<lparr>clickBatchTimer := None\<rparr>
            in (s2, sendClickBatch page items isFinal)))"

definition enqueueClick ::
  "click_config \<Rightarrow> string \<Rightarrow> int \<Rightarrow> click_record \<Rightarrow> click_state \<Rightarrow> click_state \<times> action list" where
  "enqueueClick cfg page now rec s =
     (let s1 = s\<lparr>clickBatch := clickBatch s @ [rec]\<rparr>
      in if int (length (clickBatch s1)) \<ge> maxBatchSize cfg then flushClickBatch page False s1
         else if clickBatchTimer s1 = None
         then (s1\<lparr>clickBatchTimer := Some (now + flushInterval cfg)\<rparr>, [])
         else (s1, []))"

text \<open>
  Time passing up to \<open>now\<close>: a pending timer that is due runs its callback, which is
  \<open>_flushClickBatch()\<close>, at the time it is due. The actions of a run carry the time at
  which they happen.
\<close>

definition fireDue :: "string \<Rightarrow> int \<Rightarrow> click_state \<Rightarrow> click_state \<times> (int \<times> action) list" where
  "fireDue page now s =
     (case clickBatchTimer s of
        None \<Rightarrow> (s, [])
      | Some due \<Rightarrow>
          if due \<le> now
          then (let (s1, acts) = flushClickBatch page False s in (s1, map (Pair due) acts))
          else (s, []))"

fun runClicks ::
  "click_config \<Rightarrow> string \<Rightarrow> (int \<times> click_record) list \<Rightarrow> click_state
     \<Rightarrow> click_state \<times> (int \<times> action) list" where
  "runClicks cfg page [] s = (s, [])"
| "runClicks cfg page ((now, rec) # cs) s =
     (let (s1, a1) = fireDue page now s;
          (s2, a2) = enqueueClick cfg page now rec s1;
          (s3, a3) = runClicks cfg page cs s2
      in (s3, a1 @ map (Pair now) a2 @ a3))"

text \<open>A run of clicks followed by the passing of time up to \<open>horizon\<close>.\<close>

definition runClicksUntil ::
  "click_config \<Rightarrow> string \<Rightarrow> (int \<times> click_record) list \<Rightarrow> int \<Rightarrow> click_state
     \<Rightarrow> click_state \<times> (int \<times> action) list" where
  "runClicksUntil cfg page cs horizon s =
     (let (s1, a1) = runClicks cfg page cs s;
          (s2, a2) = fireDue page horizon s1
      in (s2, a1 @ a2))"

section \<open>The click batch with a frequent area (unnamed/part 001)\<close>

record click_config_hot = click_config +
  frequentFlushInterval :: int

record click_state_hot = click_state +
  lastFlushAt :: int

definition defaultClickConfig_hot :: click_config_hot where
  "defaultClickConfig_hot =
     \<lparr>batch = True, flushInterval = 1500, maxBatchSize = 40, includeTextMaxLen = 120,
      frequentFlushInterval = 500\<rparr>"

definition emptyClickState_hot :: click_state_hot where
  "emptyClickState_hot = \<lparr>clickBatch = [], clickBatchTimer = None, lastFlushAt = 0\<rparr>"

definition sendClickBatch_hot :: "string \<Rightarrow> click_record list \<Rightarrow> action list" where
  "sendClickBatch_hot page items =
     [LogEvent ''dom_click_stats'' (DomClickStatsData page (int (length items)) items)]"

definition flushClickBatch_hot ::
  "string \<Rightarrow> int \<Rightarrow> click_state_hot \<Rightarrow> click_state_hot \<times> action list" where
  "flushClickBatch_hot page now s =
     (if clickBatch s = [] then (s, [])
      else (let items = clickBatch s;
                s1 = s\<lparr>clickBatch := [], clickBatchTimer := None, lastFlushAt := now\<rparr>
            in (s1, sendClickBatch_hot page items)))"

definition enqueueClick_hot ::
  "click_config_hot \<Rightarrow> string \<Rightarrow> int \<Rightarrow> click_record \<Rightarrow> bool \<Rightarrow> click_state_hot
     \<Rightarrow> click_state_hot \<times> action list" where
  "enqueueClick_hot cfg page now rec isFrequent s =
     (let s1 = s\<lparr>clickBatch := clickBatch s @ [rec]\<rparr>
      in if int (length (clickBatch s1)) \<ge> maxBatchSize cfg then flushClickBatch_hot page now s1
         else
           (let interval = (if isFrequent then frequentFlushInterval cfg else flushInterval cfg)
            in if clickBatchTimer s1 \<noteq> None then
                 (let nextAt = lastFlushAt s1 + interval
                  in if now + interval < nextAt
                     then (s1\<lparr>clickBatchTimer := Some (now + interval)\<rparr>, [])
                     else (s1, []))
               else (s1\<lparr>clickBatchTimer := Some (now + interval)\<rparr>, [])))"

text \<open>A click record outside any interactive element, for concrete runs.\<close>

definition plainClick :: click_record where
  "plainClick = \<lparr>tag = ''div'', interactive = False, content = None, content_len = 0\<rparr>"

text \<open>Sixty clicks, ten milliseconds apart, outside any interactive element.\<close>

definition sixtyClicks :: "(int \<times> click_record) list" where
  "sixtyClicks = map (\<lambda>i. (10 * int i, plainClick)) [0..<60]"

section \<open>The idle and hint scheduler (behavior tracker, first variant of the module)\<close>

text \<open>
  The two timers are modelled by the time at which each pending one is due; the code never
  reads \<open>idleTimer\<close> or \<open>_idleHintTimer\<close> except to clear them. \<open>idleMs\<close> is the
  argument of \<open>initIdleAndFocus\<close>, which its closures keep. \<open>hintAfterMs\<close> and
  \<open>delayAfterIdleMs\<close> are \<open>None\<close> when they are not numbers.
\<close>

record idle_hint_config =
  hintAfterMs :: "int option"
  delayAfterIdleMs :: "int option"
  cooldownMs :: int
  lastHintTs :: int
  messages :: "string list"

record idle_state =
  focusAndIdleBound :: bool
  idleMs :: int
  lastActivityTs :: int
  idleStartTs :: "int option"
  idleTimer :: "int option"
  idleHintTimer :: "int option"
  idleMsgIdx :: nat
  idleHintConfig :: idle_hint_config

definition defaultIdleHintConfig :: idle_hint_config where
  "defaultIdleHintConfig =
     \<lparr>hintAfterMs = Some 3000, delayAfterIdleMs = None, cooldownMs = 18000, lastHintTs = 0,
      messages = [''hint 1'', ''hint 2'', ''hint 3'', ''hint 4'', ''hint 5'']\<rparr>"

definition newIdleState :: "int \<Rightarrow> idle_state" where
  "newIdleState now =
     \<lparr>focusAndIdleBound = False, idleMs = 4000, lastActivityTs = now, idleStartTs = None,
      idleTimer = None, idleHintTimer = None, idleMsgIdx = 0,
      idleHintConfig = defaultIdleHintConfig\<rparr>"

definition computeHintDelay :: "idle_state \<Rightarrow> int" where
  "computeHintDelay s =
     (case delayAfterIdleMs (idleHintConfig s) of
        Some d \<Rightarrow> max 0 d
      | None \<Rightarrow>
          (let total = (case hintAfterMs (idleHintConfig s) of Some h \<Rightarrow> h | None \<Rightarrow> idleMs s)
           in max 0 (total - idleMs s)))"

definition scheduleIdleAndHint :: "int \<Rightarrow> idle_state \<Rightarrow> idle_state" where
  "scheduleIdleAndHint now s =
     s\<lparr>idleHintTimer := None, lastActivityTs := now, idleTimer := Some (now + idleMs s)\<rparr>"

text \<open>The callback of the idle timer, run at \<open>now\<close>.\<close>

definition idleTimerFires :: "int \<Rightarrow> idle_state \<Rightarrow> idle_state" where
  "idleTimerFires now s =
     (let s1 = s\<lparr>idleTimer := None\<rparr>;
          s2 = (if idleStartTs s1 = None then s1\<lparr>idleStartTs := Some (lastActivityTs s1)\<rparr> else s1);
          delay = computeHintDelay s2
      in s2\<lparr>idleHintTimer := Some (now + delay)\<rparr>)"

definition maybeShowIdleHint :: "string \<Rightarrow> int \<Rightarrow> idle_state \<Rightarrow> idle_state \<times> action list" where
  "maybeShowIdleHint page now s =
     (let last = lastHintTs (idleHintConfig s);
          cooldown = cooldownMs (idleHintConfig s)
      in if now - last < cooldown then (s, [])
         else
           (let msgs = messages (idleHintConfig s)
            in if msgs = [] then (s, [])
               else
                 (let idx = idleMsgIdx s mod length msgs;
                      message = msgs ! idx;
                      s1 = s\<lparr>idleMsgIdx := idx + 1\<rparr>;
                      s2 = s1\<lparr>idleHintConfig := (idleHintConfig s1)\<lparr>lastHintTs := now\<rparr>\<rparr>;
                      v = (case idleStartTs s2 of Some st \<Rightarrow> st | None \<Rightarrow> lastActivityTs s2);
                      idleStart = (if v = 0 then now else v);
                      idleSoFar = max 0 (now - idleStart)
                  in (s2, [DispatchEvent (IdleHintNeeded now message),
                           LogEvent ''idle_hint_displayed''
                             (IdleHintDisplayedData message idleSoFar page now)]))))"

text \<open>The callback of the hint timer, run at \<open>now\<close>.\<close>

definition hintTimerFires :: "string \<Rightarrow> int \<Rightarrow> idle_state \<Rightarrow> idle_state \<times> action list" where
  "hintTimerFires page now s =
     (let s1 = s\<lparr>idleHintTimer := None\<rparr>
      in if idleStartTs s1 \<noteq> None then maybeShowIdleHint page now s1 else (s1, []))"

text \<open>\<open>hidden\<close> is \<open>document.hidden\<close> when the handler runs.\<close>

definition onActivity ::
  "string \<Rightarrow> bool \<Rightarrow> string \<Rightarrow> int \<Rightarrow> idle_state \<Rightarrow> idle_state \<times> action list" where
  "onActivity page hidden src now s =
     (let (s1, acts) =
            (case idleStartTs s of
               Some st \<Rightarrow>
                 (s\<lparr>idleStartTs := None\<rparr>,
                  [LogEvent ''user_idle'' (UserIdleData (now - st) st now (\<not> hidden) page src)])
             | None \<Rightarrow> (s, []));
          s2 = s1\<lparr>lastActivityTs := now\<rparr>
      in (scheduleIdleAndHint now s2, acts))"

definition onVisibilityChange ::
  "string \<Rightarrow> bool \<Rightarrow> int \<Rightarrow> idle_state \<Rightarrow> idle_state \<times> action list" where
  "onVisibilityChange page hidden now s =
     (if \<not> hidden then onActivity page hidden ''visibility'' now s else (s, []))"

definition onPageHide ::
  "string \<Rightarrow> bool \<Rightarrow> int \<Rightarrow> idle_state \<Rightarrow> idle_state \<times> action list" where
  "onPageHide page hidden now s =
     (case idleStartTs s of
        Some st \<Rightarrow>
          (s\<lparr>idleStartTs := None\<rparr>,
           [LogEvent ''user_idle'' (UserIdleData (now - st) st now (\<not> hidden) page ''pagehide'')])
      | None \<Rightarrow> (s, []))"

definition initIdleAndFocus ::
  "int \<Rightarrow> idle_hint_config option \<Rightarrow> int \<Rightarrow> idle_state \<Rightarrow> idle_state" where
  "initIdleAndFocus idleMsArg override now s =
     (if focusAndIdleBound s then s
      else (let s1 = s\<lparr>focusAndIdleBound := True, idleMs := idleMsArg\<rparr>;
                s2 = (case override of None \<Rightarrow> s1 | Some c \<Rightarrow> s1\<lparr>idleHintConfig := c\<rparr>)
            in scheduleIdleAndHint now s2))"

text \<open>
  Time passing up to \<open>now\<close> with no event: a pending idle timer that is due runs at the
  time it is due, and then so does the hint timer it started.
\<close>

definition advanceIdle :: "string \<Rightarrow> int \<Rightarrow> idle_state \<Rightarrow> idle_state \<times> action list" where
  "advanceIdle page now s =
     (let s1 = (case idleTimer s of
                  Some due \<Rightarrow> if due \<le> now then idleTimerFires due s else s
                | None \<Rightarrow> s)
      in case idleHintTimer s1 of
           Some due \<Rightarrow> if due \<le> now then hintTimerFires page due s1 else (s1, [])
         | None \<Rightarrow> (s1, []))"

datatype idle_event = Activity string | VisibilityChange | PageHide

fun handleIdleEvent ::
  "string \<Rightarrow> bool \<Rightarrow> int \<Rightarrow> idle_event \<Rightarrow> idle_state \<Rightarrow> idle_state \<times> action list" where
  "handleIdleEvent page hidden now (Activity src) s = onActivity page hidden src now s"
| "handleIdleEvent page hidden now VisibilityChange s = onVisibilityChange page hidden now s"
| "handleIdleEvent page hidden now PageHide s = onPageHide page hidden now s"

text \<open>A run of events, each with its time and the value of \<open>document.hidden\<close> then.\<close>

fun runIdle ::
  "string \<Rightarrow> (int \<times> bool \<times> idle_event) list \<Rightarrow> idle_state \<Rightarrow> idle_state \<times> action list" where
  "runIdle page [] s = (s, [])"
| "runIdle page ((now, hidden, ev) # evs) s =
     (let (s1, a1) = advanceIdle page now s;
          (s2, a2) = handleIdleEvent page hidden now ev s1;
          (s3, a3) = runIdle page evs s2
      in (s3, a1 @ a2 @ a3))"

text \<open>
  A run of activity signals in which each comes before the idle timer set by the one
  before it (or by the start at \<open>lastAct\<close>) is due, and the time of the last of them.
\<close>

fun staysActive :: "int \<Rightarrow> int \<Rightarrow> (int \<times> bool \<times> idle_event) list \<Rightarrow> bool" where
  "staysActive lastAct gap [] = True"
| "staysActive lastAct gap ((now, hidden, ev) # evs) =
     (now < lastAct + gap \<and> (case ev of Activity _ \<Rightarrow> True | _ \<Rightarrow> False) \<and>
      staysActive now gap evs)"

definition lastTime :: "int \<Rightarrow> (int \<times> bool \<times> idle_event) list \<Rightarrow> int" where
  "lastTime t0 evs = (if evs = [] then t0 else fst (last evs))"

text \<open>
  Two states for concrete runs: the defaults with an empty message list, and the defaults
  with a hint delay of three seconds after the start of the idle session.
\<close>

definition noMessagesState :: idle_state where
  "noMessagesState =
     (newIdleState 0)\<lparr>idleHintConfig := defaultIdleHintConfig\<lparr>messages := []\<rparr>\<rparr>"

definition delayedHintState :: idle_state where
  "delayedHintState =
     (newIdleState 0)\<lparr>idleHintConfig := defaultIdleHintConfig\<lparr>delayAfterIdleMs := Some 3000\<rparr>\<rparr>"

section \<open>Properties of the delivery layer\<close>

lemma sendPayload_returns: "snd (sendPayload tr url p) = Returned"
  by (simp add: sendPayload_def split: prod.splits bool.splits)

lemma sendPayload_at_most_one_call:
  "length (filter isTransportCall (fst (sendPayload tr url p))) \<le> 1"
  by (auto simp: sendPayload_def sendPayload_try_def Let_def
      split: prod.splits bool.splits option.splits fetch_behaviour.splits if_splits)

lemma sendPayload_fetch_without_credentials:
  "r \<in> set (fetchRequests (fst (sendPayload tr url p))) \<Longrightarrow>
     http_method r = ''POST'' \<and> content_type r = ''application/json'' \<and>
     keepalive r \<and> credentials r = Some ''omit''"
  by (auto simp: sendPayload_def sendPayload_try_def Let_def
      split: prod.splits bool.splits option.splits fetch_behaviour.splits if_splits)

lemma sendPayload_exception_logged:
  "snd (sendPayload_try tr url p) \<Longrightarrow>
     fst (sendPayload tr url p) = fst (sendPayload_try tr url p) @ [ConsoleWarn SendException]"
  by (cases "sendPayload_try tr url p") (auto simp: sendPayload_def)

lemma sendPayload_rejection_logged:
  "\<not> beaconAvailable tr \<Longrightarrow> stringify tr p = Some b \<Longrightarrow> fetchResult tr = FetchRejects \<Longrightarrow>
     ConsoleWarn FetchFailed \<in> set (fst (sendPayload tr url p))"
  by (simp add: sendPayload_def sendPayload_try_def Let_def)

lemma sendPayload_part000_returns: "snd (sendPayload_part000 tr p) = Returned"
  by (simp add: sendPayload_part000_def split: prod.splits bool.splits)

lemma sendPayload_part000_at_most_one_call:
  "length (filter isTransportCall (fst (sendPayload_part000 tr p))) \<le> 1"
  by (auto simp: sendPayload_part000_def sendPayload_part000_try_def Let_def
      split: prod.splits bool.splits option.splits fetch_behaviour.splits if_splits)

lemma sendPayload_part000_exception_logged:
  "snd (sendPayload_part000_try tr p) \<Longrightarrow>
     fst (sendPayload_part000 tr p) = fst (sendPayload_part000_try tr p) @ [ConsoleWarn SendException]"
  by (cases "sendPayload_part000_try tr p") (auto simp: sendPayload_part000_def)

lemma sendPayload_part000_fetch_request:
  "r \<in> set (fetchRequests (fst (sendPayload_part000 tr p))) \<Longrightarrow>
     http_method r = ''POST'' \<and> content_type r = ''application/json'' \<and>
     keepalive r \<and> credentials r = None"
  by (auto simp: sendPayload_part000_def sendPayload_part000_try_def Let_def
      split: prod.splits bool.splits option.splits fetch_behaviour.splits if_splits)

text \<open>
  C1. When neither the provider (an exception counting as no value) nor the global
  fallback gives a truthy participant id, \<open>logEvent\<close> does nothing but log one warning:
  no envelope is built and the send function is not called. Otherwise the send function
  receives exactly one envelope, whose participant id is truthy. \<open>logEvent\<close> writes to
  no field of the tracker, so nothing is buffered.
\<close>

theorem logEvent_identity_gate:
  "(\<not> truthy (providerValue idn) \<and> \<not> truthy (windowParticipantId idn) \<longrightarrow>
      logEvent send idn now eventType eventData = [ConsoleWarn (NoParticipantId eventType)]) \<and>
   (logEvent send idn now eventType eventData = [ConsoleWarn (NoParticipantId eventType)] \<or>
    (\<exists>env. truthy (participant_id env) \<and> participant_id env \<noteq> JNull \<and>
       event_type env = eventType \<and> event_data env = eventData \<and>
       logEvent send idn now eventType eventData = send env))"
proof -
  let ?pid = "resolveParticipantId idn"
  have drop: "\<not> truthy (providerValue idn) \<Longrightarrow> \<not> truthy (windowParticipantId idn) \<Longrightarrow> \<not> truthy ?pid"
    by (simp add: resolveParticipantId_def Let_def)
  have first: "\<not> truthy (providerValue idn) \<and> \<not> truthy (windowParticipantId idn) \<longrightarrow>
      logEvent send idn now eventType eventData = [ConsoleWarn (NoParticipantId eventType)]"
    using drop by (simp add: logEvent_def Let_def)
  have second: "logEvent send idn now eventType eventData = [ConsoleWarn (NoParticipantId eventType)] \<or>
    (\<exists>env. truthy (participant_id env) \<and> participant_id env \<noteq> JNull \<and>
       event_type env = eventType \<and> event_data env = eventData \<and>
       logEvent send idn now eventType eventData = send env)"
  proof (cases "truthy ?pid")
    case False
    then show ?thesis by (simp add: logEvent_def Let_def)
  next
    case True
    let ?env = "\<lparr>participant_id = ?pid, event_type = eventType,
                  event_data = eventData, timestamp = now\<rparr>"
    have "participant_id ?env \<noteq> JNull" using True by auto
    moreover have "logEvent send idn now eventType eventData = send ?env"
      using True by (simp add: logEvent_def Let_def)
    ultimately show ?thesis using True
      by (intro disjI2 exI [of _ ?env]) simp
  qed
  from first second show ?thesis by blast
qed

theorem logEvent_identity_gate_witness:
  "logEvent (\<lambda>env. fst (sendPayload_apiClient (ApiClient PostResolves) env))
      \<lparr>getParticipantId = Throws, windowParticipantId = JStr ''''\<rparr> 5 ''page_click'' (0::nat)
    = [ConsoleWarn (NoParticipantId ''page_click'')]"
proof -
  have "\<not> truthy (providerValue \<lparr>getParticipantId = Throws, windowParticipantId = JStr ''''\<rparr>) \<and>
        \<not> truthy (windowParticipantId \<lparr>getParticipantId = Throws, windowParticipantId = JStr ''''\<rparr>)"
    by (simp add: providerValue_def)
  then show ?thesis
    using logEvent_identity_gate
      [of "\<lparr>getParticipantId = Throws, windowParticipantId = JStr ''''\<rparr>"
          "\<lambda>env. fst (sendPayload_apiClient (ApiClient PostResolves) env)"
          5 "''page_click''" "0::nat"]
    by blast
qed

text \<open>
  C2 fails on the older variant of \<open>_sendPayload\<close> (unnamed/part_000): with no beacon
  the request is a keep-alive POST of JSON, but its options carry no \<open>credentials\<close>
  member, so it is not sent without credentials. The newer variant (unnamed/part_001) sets
  \<open>credentials: 'omit'\<close>, as the lemmas on \<open>sendPayload\<close> above show. Both variants
  return normally, make at most one transport call and log what they catch.
\<close>

theorem sendPayload_part000_keeps_default_credentials:
  "fetchRequests (fst (sendPayload_part000
      \<lparr>beaconAvailable = False, stringify = (\<lambda>_. Some ''{}''), beacon = BeaconQueued,
       fetchResult = FetchResolves\<rparr>
      \<lparr>participant_id = JStr ''p1'', event_type = ''code_edit'', event_data = (0::nat),
       timestamp = 0\<rparr>)) =
   [\<lparr>http_method = ''POST'', content_type = ''application/json'', body = ''{}'',
     keepalive = True, credentials = None\<rparr>]"
  by (simp add: sendPayload_part000_def sendPayload_part000_try_def)

section \<open>Properties of the edit-cycle analyzer\<close>

lemma triggerProblemHint_fields [simp]:
  "codeMonitorStates (fst (triggerProblemHint cfg now ed n ts t)) = codeMonitorStates t"
  "significantEdits (fst (triggerProblemHint cfg now ed n ts t)) = significantEdits t"
  "problemEvents (fst (triggerProblemHint cfg now ed n ts t)) = problemEvents t"
  by (simp_all add: triggerProblemHint_def)

lemma triggerProblemHint_logs [simp]:
  "loggedAs et (snd (triggerProblemHint cfg now ed n ts t)) = []"
  by (simp add: triggerProblemHint_def)

lemma loggedAs_append [simp]: "loggedAs et (xs @ ys) = loggedAs et xs @ loggedAs et ys"
  by (induction et xs rule: loggedAs.induct) auto

lemma recordProblemEvent_fields [simp]:
  "codeMonitorStates (fst (recordProblemEvent cfg now ed n ts t)) = codeMonitorStates t"
  "significantEdits (fst (recordProblemEvent cfg now ed n ts t)) = significantEdits t"
  "problemEvents (fst (recordProblemEvent cfg now ed n ts t)) =
     problemEvents t @ [\<lparr>pe_editor = ed, pe_timestamp = ts, pe_consecutiveEdits = n,
                          pe_severity = calculateProblemSeverity n\<rparr>]"
  by (simp_all add: recordProblemEvent_def Let_def case_prod_beta)

lemma recordProblemEvent_logs:
  "loggedAs et (snd (recordProblemEvent cfg now ed n ts t)) =
     (if et = ''coding_problem'' then [CodingProblemData ed n (calculateProblemSeverity n) ts] else [])"
  by (simp add: recordProblemEvent_def Let_def case_prod_beta submitProblemEvent_def)

lemma submitSignificantEdits_logs:
  "loggedAs et (submitSignificantEdits now t) =
     (if et = ''significant_edits'' \<and> significantEdits t \<noteq> []
      then [SignificantEditsData (int (length (sliceLast5 (significantEdits t))))
              (sliceLast5 (significantEdits t)) now]
      else [])"
  by (simp add: submitSignificantEdits_def Let_def)

lemma completeEditCycle_states:
  "codeMonitorStates (fst (completeEditCycle cfg now ed ts fl t)) =
     (codeMonitorStates t)(ed := (codeMonitorStates t ed)\<lparr>isDeleting := False, deleteStartTime := 0,
                        deleteStartLength := 0, consecutiveEdits := 0\<rparr>)"
  by (simp add: completeEditCycle_def Let_def case_prod_beta)

lemma completeEditCycle_history:
  "significantEdits (fst (completeEditCycle cfg now ed ts fl t)) =
     (let st = codeMonitorStates t ed; netChange = fl - deleteStartLength st
      in if \<bar>netChange\<bar> \<ge> minChangeThreshold cfg
         then shiftIfOver (maxHistoryLength cfg)
                (significantEdits t @
                   [EditCycleRecord ed ts (ts - deleteStartTime st) netChange \<bar>netChange\<bar>
                      (deleteStartLength st) fl (consecutiveEdits st)])
         else significantEdits t)"
  by (simp add: completeEditCycle_def Let_def case_prod_beta)

lemma completeEditCycle_problems:
  "problemEvents (fst (completeEditCycle cfg now ed ts fl t)) =
     (let st = codeMonitorStates t ed; netChange = fl - deleteStartLength st
      in if \<bar>netChange\<bar> \<ge> minChangeThreshold cfg \<and>
            consecutiveEdits st \<ge> problemDetectionThreshold cfg
         then problemEvents t @ [\<lparr>pe_editor = ed, pe_timestamp = ts,
                 pe_consecutiveEdits = consecutiveEdits st,
                 pe_severity = calculateProblemSeverity (consecutiveEdits st)\<rparr>]
         else problemEvents t)"
  by (simp add: completeEditCycle_def Let_def case_prod_beta)

lemma completeEditCycle_coding_problem:
  "loggedAs ''coding_problem'' (snd (completeEditCycle cfg now ed ts fl t)) =
     (let st = codeMonitorStates t ed; netChange = fl - deleteStartLength st
      in if \<bar>netChange\<bar> \<ge> minChangeThreshold cfg \<and>
            consecutiveEdits st \<ge> problemDetectionThreshold cfg
         then [CodingProblemData ed (consecutiveEdits st)
                 (calculateProblemSeverity (consecutiveEdits st)) ts]
         else [])"
  by (simp add: completeEditCycle_def Let_def case_prod_beta recordProblemEvent_logs
      submitSignificantEdits_logs)

lemma recordMeaningfulEdit_states [simp]:
  "codeMonitorStates (fst (recordMeaningfulEdit cfg now ed ty amt len ts t)) = codeMonitorStates t"
  by (simp add: recordMeaningfulEdit_def Let_def)

lemma recordMeaningfulEdit_problems [simp]:
  "problemEvents (fst (recordMeaningfulEdit cfg now ed ty amt len ts t)) = problemEvents t"
  by (simp add: recordMeaningfulEdit_def Let_def)

lemma handleAddition_states:
  "codeMonitorStates (fst (handleAddition cfg ed lc len ts tsl t)) ed' =
     (if ed' = ed then
        (let st = codeMonitorStates t ed;
             st1 = (if isDeleting st then st\<lparr>isDeleting := False, deleteStartTime := 0,
                        deleteStartLength := 0, consecutiveEdits := 0\<rparr> else st)
         in st1\<lparr>consecutiveEdits := consecutiveEdits st1 + 1, lastMeaningfulEdit := ts\<rparr>)
      else codeMonitorStates t ed')"
  by (simp add: handleAddition_def Let_def case_prod_beta completeEditCycle_states)

lemma handleDeletion_states:
  "codeMonitorStates (handleDeletion ed len ts t) ed' =
     (if ed' = ed \<and> \<not> isDeleting (codeMonitorStates t ed) then
        (codeMonitorStates t ed)\<lparr>isDeleting := True, deleteStartTime := ts,
                         deleteStartLength := lastLength (codeMonitorStates t ed),
                         consecutiveEdits := consecutiveEdits (codeMonitorStates t ed) + 1\<rparr>
      else codeMonitorStates t ed')"
  by (simp add: handleDeletion_def Let_def)

lemma smart_other_surface:
  "ed' \<noteq> ed \<Longrightarrow>
     codeMonitorStates (fst (smartRecordCodeChange cfg now ed c t)) ed' = codeMonitorStates t ed'"
  by (simp add: smartRecordCodeChange_def Let_def case_prod_beta handleAddition_states
      handleDeletion_states)

lemma smart_view:
  "cycleView (codeMonitorStates (fst (smartRecordCodeChange cfg now ed c t)) ed) =
     nextView (int (length c)) (cycleView (codeMonitorStates t ed))"
  by (simp add: smartRecordCodeChange_def Let_def case_prod_beta handleAddition_states
      handleDeletion_states cycleView_def nextView_def)

lemma runSignals_view:
  "cycleView (codeMonitorStates t1 ed) = cycleView (codeMonitorStates t2 ed) \<Longrightarrow>
   cycleView (codeMonitorStates (fst (runSignals cfg sigs t1)) ed) =
   cycleView (codeMonitorStates (fst (runSignals cfg sigs t2)) ed)"
proof (induction sigs arbitrary: t1 t2)
  case Nil
  then show ?case by simp
next
  case (Cons sg sigs)
  obtain e now c where sg: "sg = (e, now, c)" by (cases sg) auto
  let ?u1 = "fst (smartRecordCodeChange cfg now e c t1)"
  let ?u2 = "fst (smartRecordCodeChange cfg now e c t2)"
  have "cycleView (codeMonitorStates ?u1 ed) = cycleView (codeMonitorStates ?u2 ed)"
  proof (cases "e = ed")
    case True
    then show ?thesis using Cons.prems by (simp add: smart_view)
  next
    case False
    then show ?thesis using Cons.prems by (simp add: smart_other_surface)
  qed
  from Cons.IH [OF this] show ?case
    by (simp add: sg case_prod_beta Let_def)
qed

lemma runSignals_count_bound:
  "0 \<le> consecutiveEdits (codeMonitorStates t ed) \<Longrightarrow>
   0 \<le> consecutiveEdits (codeMonitorStates (fst (runSignals cfg sigs t)) ed) \<and>
   consecutiveEdits (codeMonitorStates (fst (runSignals cfg sigs t)) ed)
     \<le> consecutiveEdits (codeMonitorStates t ed) + int (length sigs)"
proof (induction sigs arbitrary: t)
  case Nil
  then show ?case by simp
next
  case (Cons sg sigs)
  obtain e now c where sg: "sg = (e, now, c)" by (cases sg) auto
  let ?u = "fst (smartRecordCodeChange cfg now e c t)"
  have step: "0 \<le> consecutiveEdits (codeMonitorStates ?u ed) \<and>
     consecutiveEdits (codeMonitorStates ?u ed) \<le> consecutiveEdits (codeMonitorStates t ed) + 1"
  proof (cases "e = ed")
    case True
    have "cycleView (codeMonitorStates ?u ed) = nextView (int (length c)) (cycleView (codeMonitorStates t ed))"
      using True by (simp add: smart_view)
    then show ?thesis using Cons.prems
      by (auto simp: cycleView_def nextView_def split: if_splits)
  next
    case False
    then show ?thesis using Cons.prems by (simp add: smart_other_surface)
  qed
  from Cons.IH [of ?u] step show ?case
    by (simp add: sg case_prod_beta Let_def)
qed

lemma smart_completes_view:
  assumes "completesCycle t ed c"
  shows "cycleView (codeMonitorStates (fst (smartRecordCodeChange cfg now ed c t)) ed) =
       (int (length c), False, 1)"
proof -
  have "nextView (int (length c)) (cycleView (codeMonitorStates t ed)) = (int (length c), False, 1)"
    using assms by (simp add: cycleView_def nextView_def completesCycle_def)
  then show ?thesis by (simp add: smart_view)
qed

lemma smart_completes_history:
  assumes "completesCycle t ed c"
  shows "significantEdits (fst (smartRecordCodeChange cfg now ed c t)) =
     (let st = codeMonitorStates t ed; netChange = int (length c) - deleteStartLength st
      in if \<bar>netChange\<bar> \<ge> minChangeThreshold cfg
         then shiftIfOver (maxHistoryLength cfg)
                (significantEdits t @
                   [EditCycleRecord ed now (now - deleteStartTime st) netChange \<bar>netChange\<bar>
                      (deleteStartLength st) (int (length c)) (consecutiveEdits st)])
         else significantEdits t)"
  using assms
  by (simp add: smartRecordCodeChange_def handleAddition_def Let_def case_prod_beta
      completesCycle_def completeEditCycle_history)

lemma smart_completes_problems:
  assumes "completesCycle t ed c"
  shows "problemEvents (fst (smartRecordCodeChange cfg now ed c t)) =
     (let st = codeMonitorStates t ed; netChange = int (length c) - deleteStartLength st
      in if \<bar>netChange\<bar> \<ge> minChangeThreshold cfg \<and>
            consecutiveEdits st \<ge> problemDetectionThreshold cfg
         then problemEvents t @ [\<lparr>pe_editor = ed, pe_timestamp = now,
                 pe_consecutiveEdits = consecutiveEdits st,
                 pe_severity = calculateProblemSeverity (consecutiveEdits st)\<rparr>]
         else problemEvents t)"
  using assms
  by (simp add: smartRecordCodeChange_def handleAddition_def Let_def case_prod_beta
      completesCycle_def completeEditCycle_problems)

lemma smart_completes_coding_problem:
  assumes "completesCycle t ed c"
  shows "loggedAs ''coding_problem'' (snd (smartRecordCodeChange cfg now ed c t)) =
     (let st = codeMonitorStates t ed; netChange = int (length c) - deleteStartLength st
      in if \<bar>netChange\<bar> \<ge> minChangeThreshold cfg \<and>
            consecutiveEdits st \<ge> problemDetectionThreshold cfg
         then [CodingProblemData ed (consecutiveEdits st)
                 (calculateProblemSeverity (consecutiveEdits st)) now]
         else [])"
  using assms
  by (simp add: smartRecordCodeChange_def handleAddition_def Let_def case_prod_beta
      completesCycle_def completeEditCycle_coding_problem)

lemma shiftIfOver_under: "int (length xs) \<le> cap \<Longrightarrow> shiftIfOver cap xs = xs"
  by (simp add: shiftIfOver_def)

text \<open>
  C3. A signal that completes a delete-then-add edit cycle on a surface, with
  \<open>netChange = finalLength - deleteStartLength\<close>: when \<open>|netChange|\<close> is below
  \<open>minChangeThreshold\<close> the history of significant edits is unchanged; otherwise exactly
  one record, of type edit cycle and carrying that net change, is pushed at the end of the
  history. Below the cap the new history is the old one followed by the record; with the
  history at its cap (of at least one) the oldest record is dropped, so the new history is
  the rest of the old one followed by the record, of the same length.
\<close>

theorem edit_cycle_significant_edit:
  assumes "completesCycle t ed newContent"
  shows "let st = codeMonitorStates t ed;
             netChange = int (length newContent) - deleteStartLength st;
             t' = fst (smartRecordCodeChange cfg now ed newContent t)
         in (\<bar>netChange\<bar> < minChangeThreshold cfg \<longrightarrow> significantEdits t' = significantEdits t) \<and>
            (\<bar>netChange\<bar> \<ge> minChangeThreshold cfg \<longrightarrow>
               (\<exists>r. isEditCycle r \<and> er_editor r = ed \<and> er_netChange r = netChange \<and>
                    significantEdits t' =
                      shiftIfOver (maxHistoryLength cfg) (significantEdits t @ [r]) \<and>
                    significantEdits t' =
                      (if int (length (significantEdits t)) < maxHistoryLength cfg
                       then significantEdits t @ [r] else tl (significantEdits t @ [r])) \<and>
                    (int (length (significantEdits t)) < maxHistoryLength cfg \<longrightarrow>
                       significantEdits t' = significantEdits t @ [r]) \<and>
                    (1 \<le> maxHistoryLength cfg \<and>
                     maxHistoryLength cfg \<le> int (length (significantEdits t)) \<longrightarrow>
                       significantEdits t' = tl (significantEdits t) @ [r] \<and>
                       last (significantEdits t') = r \<and>
                       length (significantEdits t') = length (significantEdits t))))"
proof -
  let ?st = "codeMonitorStates t ed"
  let ?net = "int (length newContent) - deleteStartLength ?st"
  let ?t' = "fst (smartRecordCodeChange cfg now ed newContent t)"
  let ?h = "significantEdits t"
  let ?r = "EditCycleRecord ed now (now - deleteStartTime ?st) ?net \<bar>?net\<bar>
              (deleteStartLength ?st) (int (length newContent)) (consecutiveEdits ?st)"
  have small: "\<bar>?net\<bar> < minChangeThreshold cfg \<Longrightarrow> significantEdits ?t' = ?h"
    using smart_completes_history [OF assms, of cfg now] by (simp add: Let_def)
  have big: "\<bar>?net\<bar> \<ge> minChangeThreshold cfg \<Longrightarrow>
      significantEdits ?t' = shiftIfOver (maxHistoryLength cfg) (?h @ [?r])"
    using smart_completes_history [OF assms, of cfg now] by (simp add: Let_def)
  have cases: "shiftIfOver (maxHistoryLength cfg) (?h @ [?r]) =
      (if int (length ?h) < maxHistoryLength cfg then ?h @ [?r] else tl (?h @ [?r]))"
    by (simp add: shiftIfOver_def)
  have room: "int (length ?h) < maxHistoryLength cfg \<Longrightarrow>
      shiftIfOver (maxHistoryLength cfg) (?h @ [?r]) = ?h @ [?r]"
    by (simp add: shiftIfOver_under)
  have full: "shiftIfOver (maxHistoryLength cfg) (?h @ [?r]) = tl ?h @ [?r] \<and>
      last (shiftIfOver (maxHistoryLength cfg) (?h @ [?r])) = ?r \<and>
      length (shiftIfOver (maxHistoryLength cfg) (?h @ [?r])) = length ?h"
    if "1 \<le> maxHistoryLength cfg" and "maxHistoryLength cfg \<le> int (length ?h)"
  proof -
    have ne: "?h \<noteq> []" using that by auto
    then have "tl (?h @ [?r]) = tl ?h @ [?r]" by simp
    moreover have "length (tl ?h @ [?r]) = length ?h" using ne by simp
    ultimately show ?thesis using that by (simp add: shiftIfOver_def)
  qed
  have "\<bar>?net\<bar> \<ge> minChangeThreshold cfg \<longrightarrow>
               (\<exists>r. isEditCycle r \<and> er_editor r = ed \<and> er_netChange r = ?net \<and>
                    significantEdits ?t' = shiftIfOver (maxHistoryLength cfg) (?h @ [r]) \<and>
                    significantEdits ?t' =
                      (if int (length ?h) < maxHistoryLength cfg
                       then ?h @ [r] else tl (?h @ [r])) \<and>
                    (int (length ?h) < maxHistoryLength cfg \<longrightarrow> significantEdits ?t' = ?h @ [r]) \<and>
                    (1 \<le> maxHistoryLength cfg \<and> maxHistoryLength cfg \<le> int (length ?h) \<longrightarrow>
                       significantEdits ?t' = tl ?h @ [r] \<and>
                       last (significantEdits ?t') = r \<and>
                       length (significantEdits ?t') = length ?h))"
  proof
    assume b: "\<bar>?net\<bar> \<ge> minChangeThreshold cfg"
    have p1: "isEditCycle ?r \<and> er_editor ?r = ed \<and> er_netChange ?r = ?net" by simp
    have p2: "significantEdits ?t' = shiftIfOver (maxHistoryLength cfg) (?h @ [?r])"
      by (rule big [OF b])
    have p3: "significantEdits ?t' =
        (if int (length ?h) < maxHistoryLength cfg then ?h @ [?r] else tl (?h @ [?r]))"
      using p2 cases by simp
    have p4: "int (length ?h) < maxHistoryLength cfg \<longrightarrow> significantEdits ?t' = ?h @ [?r]"
      using p2 room by simp
    have p5: "1 \<le> maxHistoryLength cfg \<and> maxHistoryLength cfg \<le> int (length ?h) \<longrightarrow>
                       significantEdits ?t' = tl ?h @ [?r] \<and>
                       last (significantEdits ?t') = ?r \<and>
                       length (significantEdits ?t') = length ?h"
      using full unfolding p2 by blast
    from p1 p2 p3 p4 p5 show "\<exists>r. isEditCycle r \<and> er_editor r = ed \<and> er_netChange r = ?net \<and>
                    significantEdits ?t' = shiftIfOver (maxHistoryLength cfg) (?h @ [r]) \<and>
                    significantEdits ?t' =
                      (if int (length ?h) < maxHistoryLength cfg
                       then ?h @ [r] else tl (?h @ [r])) \<and>
                    (int (length ?h) < maxHistoryLength cfg \<longrightarrow> significantEdits ?t' = ?h @ [r]) \<and>
                    (1 \<le> maxHistoryLength cfg \<and> maxHistoryLength cfg \<le> int (length ?h) \<longrightarrow>
                       significantEdits ?t' = tl ?h @ [r] \<and>
                       last (significantEdits ?t') = r \<and>
                       length (significantEdits ?t') = length ?h)"
      by (intro exI [of _ ?r]) blast
  qed
  with small show ?thesis unfolding Let_def by blast
qed

theorem edit_cycle_significant_edit_witness:
  "completesCycle deletingTracker Js (replicate 45 CHR ''a'') \<and>
   (\<exists>r. isEditCycle r \<and> er_netChange r = 25 \<and>
      significantEdits (fst (smartRecordCodeChange defaultMonitoringConfig 3000 Js
         (replicate 45 CHR ''a'') deletingTracker)) = [r]) \<and>
   completesCycle fullHistoryTracker Js (replicate 45 CHR ''a'') \<and>
   (\<exists>r. isEditCycle r \<and> er_netChange r = 25 \<and>
      significantEdits (fst (smartRecordCodeChange defaultMonitoringConfig 3000 Js
         (replicate 45 CHR ''a'') fullHistoryTracker)) =
        replicate 99 (ChangeRecord ''addition'' Js 0 10 10) @ [r])"
proof -
  have c: "completesCycle deletingTracker Js (replicate 45 CHR ''a'')"
    by (simp add: completesCycle_def deletingTracker_def newTracker_def createEditorState_def)
  have n: "int (length (replicate 45 CHR ''a'')) - deleteStartLength (codeMonitorStates deletingTracker Js) = 25"
    by (simp add: deletingTracker_def newTracker_def createEditorState_def)
  have m: "minChangeThreshold defaultMonitoringConfig = 10" "maxHistoryLength defaultMonitoringConfig = 100"
    by (simp_all add: defaultMonitoringConfig_def)
  have e: "significantEdits deletingTracker = []"
    by (simp add: deletingTracker_def newTracker_def)
  from edit_cycle_significant_edit [OF c, of defaultMonitoringConfig 3000]
  have one: "\<exists>r. isEditCycle r \<and> er_netChange r = 25 \<and>
      significantEdits (fst (smartRecordCodeChange defaultMonitoringConfig 3000 Js
         (replicate 45 CHR ''a'') deletingTracker)) = [r]"
    unfolding Let_def n m e by auto
  have c2: "completesCycle fullHistoryTracker Js (replicate 45 CHR ''a'')"
    by (simp add: completesCycle_def fullHistoryTracker_def deletingTracker_def newTracker_def
        createEditorState_def)
  have n2: "int (length (replicate 45 CHR ''a'')) -
      deleteStartLength (codeMonitorStates fullHistoryTracker Js) = 25"
    by (simp add: fullHistoryTracker_def deletingTracker_def newTracker_def createEditorState_def)
  have e2: "significantEdits fullHistoryTracker = replicate 100 (ChangeRecord ''addition'' Js 0 10 10)"
    by (simp add: fullHistoryTracker_def)
  have l2: "int (length (replicate 100 (ChangeRecord ''addition'' Js 0 10 10))) = 100" by simp
  have t2: "tl (replicate 100 (ChangeRecord ''addition'' Js 0 10 10)) =
      replicate 99 (ChangeRecord ''addition'' Js 0 10 10)"
    by (simp add: tl_replicate)
  from edit_cycle_significant_edit [OF c2, of defaultMonitoringConfig 3000]
  have two: "\<exists>r. isEditCycle r \<and> er_netChange r = 25 \<and>
      significantEdits (fst (smartRecordCodeChange defaultMonitoringConfig 3000 Js
         (replicate 45 CHR ''a'') fullHistoryTracker)) =
        replicate 99 (ChangeRecord ''addition'' Js 0 10 10) @ [r]"
    unfolding Let_def n2 m e2 l2 t2 by auto
  from c one c2 two show ?thesis by blast
qed

lemmas analyzer_defs =
  smartRecordCodeChange_def handleAddition_def handleDeletion_def completeEditCycle_def
  recordMeaningfulEdit_def recordProblemEvent_def triggerProblemHint_def submitProblemEvent_def
  submitSignificantEdits_def sliceLast5_def shiftIfOver_def calculateProblemSeverity_def
  newTracker_def createEditorState_def defaultMonitoringConfig_def

lemma struggleTracker_Js:
  "cycleView (codeMonitorStates struggleTracker Js) = (100, True, 3)"
  "deleteStartLength (codeMonitorStates struggleTracker Js) = 100"
  "problemEvents struggleTracker = []"
  by (simp_all add: struggleTracker_def struggleSignals_def analyzer_defs Let_def cycleView_def)

lemma deliver_contains:
  "d \<in> set (loggedAs et acts) \<Longrightarrow> truthy (resolveParticipantId idn) \<Longrightarrow>
     \<exists>pre post. deliver send idn clk acts =
        pre @ send \<lparr>participant_id = resolveParticipantId idn, event_type = et,
                     event_data = d, timestamp = clk\<rparr> @ post"
proof (induction send idn clk acts rule: deliver.induct)
  case (1 send idn now)
  then show ?case by simp
next
  case (2 send idn now et' ed as)
  show ?case
  proof (cases "et' = et \<and> ed = d")
    case True
    have "deliver send idn now (LogEvent et' ed # as) =
        [] @ send \<lparr>participant_id = resolveParticipantId idn, event_type = et,
                     event_data = d, timestamp = now\<rparr> @ deliver send idn now as"
      using True "2.prems"(2) by (simp add: logEvent_def Let_def)
    then show ?thesis by blast
  next
    case False
    then have "d \<in> set (loggedAs et as)" using "2.prems"(1) by (auto split: if_splits)
    from "2.IH" [OF this "2.prems"(2)] obtain pre post where
      "deliver send idn now as =
        pre @ send \<lparr>participant_id = resolveParticipantId idn, event_type = et,
                     event_data = d, timestamp = now\<rparr> @ post" by blast
    then have "deliver send idn now (LogEvent et' ed # as) =
        (logEvent send idn now et' ed @ pre) @
          send \<lparr>participant_id = resolveParticipantId idn, event_type = et,
                     event_data = d, timestamp = now\<rparr> @ post" by simp
    then show ?thesis by blast
  qed
next
  case (3 send idn now uu as)
  then show ?case by simp
qed

text \<open>
  C4. A signal that completes an edit cycle records a problem event exactly when
  \<open>|netChange|\<close> reaches \<open>minChangeThreshold\<close> and the consecutive-edit count reaches
  \<open>problemDetectionThreshold\<close>. Its severity depends on the count alone (below 5 low,
  5 to 9 medium, 10 and above high), and the same handler call passes it to \<open>logEvent\<close>
  as one \<open>coding_problem\<close> event, which the send function receives when a participant
  id resolves. A cycle whose net change is below the threshold records and logs none,
  whatever the count.
\<close>

theorem edit_cycle_problem_event:
  assumes "completesCycle t ed newContent"
  shows "let st = codeMonitorStates t ed; n = consecutiveEdits st;
             netChange = int (length newContent) - deleteStartLength st;
             res = smartRecordCodeChange cfg now ed newContent t;
             sev = calculateProblemSeverity n
         in (\<bar>netChange\<bar> \<ge> minChangeThreshold cfg \<and> n \<ge> problemDetectionThreshold cfg \<longrightarrow>
               problemEvents (fst res) = problemEvents t @
                 [\<lparr>pe_editor = ed, pe_timestamp = now, pe_consecutiveEdits = n, pe_severity = sev\<rparr>] \<and>
               loggedAs ''coding_problem'' (snd res) = [CodingProblemData ed n sev now] \<and>
               (truthy (resolveParticipantId idn) \<longrightarrow>
                  (\<exists>pre post. deliver send idn clk (snd res) =
                     pre @ send \<lparr>participant_id = resolveParticipantId idn,
                                  event_type = ''coding_problem'',
                                  event_data = CodingProblemData ed n sev now,
                                  timestamp = clk\<rparr> @ post))) \<and>
            (\<not> (\<bar>netChange\<bar> \<ge> minChangeThreshold cfg \<and> n \<ge> problemDetectionThreshold cfg) \<longrightarrow>
               problemEvents (fst res) = problemEvents t \<and>
               loggedAs ''coding_problem'' (snd res) = []) \<and>
            sev = (if n < 5 then Low else if n < 10 then Medium else High)"
proof -
  let ?st = "codeMonitorStates t ed"
  let ?n = "consecutiveEdits ?st"
  let ?net = "int (length newContent) - deleteStartLength ?st"
  let ?res = "smartRecordCodeChange cfg now ed newContent t"
  let ?sev = "calculateProblemSeverity ?n"
  let ?fires = "\<bar>?net\<bar> \<ge> minChangeThreshold cfg \<and> ?n \<ge> problemDetectionThreshold cfg"
  have pe: "?fires \<Longrightarrow> problemEvents (fst ?res) = problemEvents t @
      [\<lparr>pe_editor = ed, pe_timestamp = now, pe_consecutiveEdits = ?n, pe_severity = ?sev\<rparr>]"
    using smart_completes_problems [OF assms, of cfg now] by (simp add: Let_def)
  have lg: "?fires \<Longrightarrow> loggedAs ''coding_problem'' (snd ?res) = [CodingProblemData ed ?n ?sev now]"
    using smart_completes_coding_problem [OF assms, of cfg now] by (simp add: Let_def)
  have dl: "?fires \<Longrightarrow> truthy (resolveParticipantId idn) \<Longrightarrow>
      \<exists>pre post. deliver send idn clk (snd ?res) =
         pre @ send \<lparr>participant_id = resolveParticipantId idn, event_type = ''coding_problem'',
                      event_data = CodingProblemData ed ?n ?sev now, timestamp = clk\<rparr> @ post"
  proof -
    assume f: ?fires and tr: "truthy (resolveParticipantId idn)"
    have "CodingProblemData ed ?n ?sev now \<in> set (loggedAs ''coding_problem'' (snd ?res))"
      using lg [OF f] by simp
    from deliver_contains [OF this tr] show ?thesis .
  qed
  have no: "\<not> ?fires \<Longrightarrow> problemEvents (fst ?res) = problemEvents t \<and>
      loggedAs ''coding_problem'' (snd ?res) = []"
    using smart_completes_problems [OF assms, of cfg now]
      smart_completes_coding_problem [OF assms, of cfg now] by (simp add: Let_def)
  have sv: "?sev = (if ?n < 5 then Low else if ?n < 10 then Medium else High)"
    by (simp add: calculateProblemSeverity_def)
  show ?thesis
    unfolding Let_def using pe lg dl no sv by blast
qed

theorem edit_cycle_problem_event_witness:
  "completesCycle struggleTracker Js (replicate 120 CHR ''a'') \<and>
   loggedAs ''coding_problem'' (snd (smartRecordCodeChange defaultMonitoringConfig 4000 Js
      (replicate 120 CHR ''a'') struggleTracker)) = [CodingProblemData Js 3 Low 4000]"
proof -
  have c: "completesCycle struggleTracker Js (replicate 120 CHR ''a'')"
    using struggleTracker_Js by (simp add: completesCycle_def cycleView_def)
  have n: "consecutiveEdits (codeMonitorStates struggleTracker Js) = 3"
    using struggleTracker_Js by (simp add: cycleView_def)
  have d: "int (length (replicate 120 CHR ''a'')) - deleteStartLength (codeMonitorStates struggleTracker Js) = 20"
    using struggleTracker_Js by simp
  have p: "problemDetectionThreshold defaultMonitoringConfig = 3"
    "minChangeThreshold defaultMonitoringConfig = 10"
    by (simp_all add: defaultMonitoringConfig_def)
  have s: "calculateProblemSeverity 3 = Low" by (simp add: calculateProblemSeverity_def)
  from edit_cycle_problem_event [OF c, of defaultMonitoringConfig 4000] c
  show ?thesis unfolding Let_def n d p s by simp
qed

text \<open>
  C4 as stated fails: the run \<open>struggleSignals\<close> followed by an addition of five characters completes a
  cycle with three consecutive edits, at the default threshold of three, and no problem
  event is recorded or logged.
\<close>

theorem problem_event_always_counterexample:
  "completesCycle struggleTracker Js (replicate 105 CHR ''a'') \<and>
   consecutiveEdits (codeMonitorStates struggleTracker Js) \<ge>
     problemDetectionThreshold defaultMonitoringConfig \<and>
   problemEvents (fst (smartRecordCodeChange defaultMonitoringConfig 4000 Js
      (replicate 105 CHR ''a'') struggleTracker)) = [] \<and>
   loggedAs ''coding_problem'' (snd (smartRecordCodeChange defaultMonitoringConfig 4000 Js
      (replicate 105 CHR ''a'') struggleTracker)) = []"
proof -
  have c: "completesCycle struggleTracker Js (replicate 105 CHR ''a'')"
    using struggleTracker_Js by (simp add: completesCycle_def cycleView_def)
  have n: "consecutiveEdits (codeMonitorStates struggleTracker Js) = 3"
    using struggleTracker_Js by (simp add: cycleView_def)
  have p: "problemDetectionThreshold defaultMonitoringConfig = 3"
    "minChangeThreshold defaultMonitoringConfig = 10"
    by (simp_all add: defaultMonitoringConfig_def)
  show ?thesis
    using c n p struggleTracker_Js(2,3)
    by (simp add: smart_completes_problems smart_completes_coding_problem Let_def)
qed


lemma completeEditCycle_significant_edits:
  "loggedAs ''significant_edits'' (snd (completeEditCycle cfg now ed ts fl t)) =
     (let st = codeMonitorStates t ed; h' = significantEdits (fst (completeEditCycle cfg now ed ts fl t))
      in if \<bar>fl - deleteStartLength st\<bar> \<ge> minChangeThreshold cfg \<and>
            (int (length h') \<ge> 5 \<or> consecutiveEdits st \<ge> problemDetectionThreshold cfg) \<and> h' \<noteq> []
         then [SignificantEditsData (int (length (sliceLast5 h'))) (sliceLast5 h') now]
         else [])"
  by (simp add: completeEditCycle_def Let_def case_prod_beta recordProblemEvent_logs
      submitSignificantEdits_logs)








text \<open>
  Outside these cases the two paths differ from the comment at the call (a batch for every
  five accumulated edits): \<open>_completeEditCycle\<close> tests \<open>length >= 5\<close>, so once five
  records are there every later recorded cycle submits again, with four records of the
  batch before.
\<close>

lemma completeEditCycle_resends_sent_records:
  "consecutiveEdits (codeMonitorStates fiveSentTracker Js) = 2 \<and>
   loggedAs ''significant_edits''
     (snd (completeEditCycle defaultMonitoringConfig 3000 Js 3000 45 fiveSentTracker)) =
     [SignificantEditsData 5
        (replicate 4 (ChangeRecord ''addition'' Js 0 10 10) @
           [EditCycleRecord Js 3000 1000 25 25 20 45 2]) 3000]"
  by (simp add: completeEditCycle_significant_edits completeEditCycle_history Let_def
      fiveSentTracker_def deletingTracker_def newTracker_def createEditorState_def
      defaultMonitoringConfig_def shiftIfOver_def sliceLast5_def)


text \<open>
  C10. \<open>_completeEditCycle\<close> always leaves the surface with \<open>isDeleting\<close> false and
  \<open>deleteStartTime\<close>, \<open>deleteStartLength\<close> and \<open>consecutiveEdits\<close> zero, whether or
  not the net change reached the threshold. Hence the count seen later does not depend on
  what came before the completion: two trackers that complete a cycle on the same signal
  have the same count after any further signals, and that count is at most the number of
  those signals plus one (the caller \<open>_handleAddition\<close> counts the completing addition
  itself after the reset).
\<close>

theorem edit_cycle_resets_surface:
  "(let st' = codeMonitorStates (fst (completeEditCycle cfg now ed ts fl t)) ed
    in \<not> isDeleting st' \<and> deleteStartTime st' = 0 \<and> deleteStartLength st' = 0 \<and>
       consecutiveEdits st' = 0) \<and>
   (completesCycle t1 ed c \<and> completesCycle t2 ed c \<longrightarrow>
      consecutiveEdits (codeMonitorStates
         (fst (runSignals cfg sigs (fst (smartRecordCodeChange cfg now1 ed c t1)))) ed) =
      consecutiveEdits (codeMonitorStates
         (fst (runSignals cfg sigs (fst (smartRecordCodeChange cfg now2 ed c t2)))) ed)) \<and>
   (completesCycle t1 ed c \<longrightarrow>
      consecutiveEdits (codeMonitorStates
         (fst (runSignals cfg sigs (fst (smartRecordCodeChange cfg now1 ed c t1)))) ed)
        \<le> 1 + int (length sigs))"
proof -
  have reset: "let st' = codeMonitorStates (fst (completeEditCycle cfg now ed ts fl t)) ed
    in \<not> isDeleting st' \<and> deleteStartTime st' = 0 \<and> deleteStartLength st' = 0 \<and>
       consecutiveEdits st' = 0"
    by (simp add: completeEditCycle_states Let_def)
  let ?u1 = "fst (smartRecordCodeChange cfg now1 ed c t1)"
  let ?u2 = "fst (smartRecordCodeChange cfg now2 ed c t2)"
  have same: "consecutiveEdits (codeMonitorStates (fst (runSignals cfg sigs ?u1)) ed) =
      consecutiveEdits (codeMonitorStates (fst (runSignals cfg sigs ?u2)) ed)"
    if c1: "completesCycle t1 ed c" and c2: "completesCycle t2 ed c"
  proof -
    have "cycleView (codeMonitorStates ?u1 ed) = cycleView (codeMonitorStates ?u2 ed)"
      by (simp add: smart_completes_view [OF c1] smart_completes_view [OF c2])
    from runSignals_view [OF this, of cfg sigs] show ?thesis
      by (simp add: cycleView_def)
  qed
  have bound: "consecutiveEdits (codeMonitorStates (fst (runSignals cfg sigs ?u1)) ed)
        \<le> 1 + int (length sigs)"
    if c1: "completesCycle t1 ed c"
  proof -
    have one: "consecutiveEdits (codeMonitorStates ?u1 ed) = 1"
      using smart_completes_view [OF c1, of cfg now1] by (simp add: cycleView_def)
    then have "0 \<le> consecutiveEdits (codeMonitorStates ?u1 ed)" by simp
    from runSignals_count_bound [OF this, of cfg sigs] one show ?thesis by simp
  qed
  from reset same bound show ?thesis by blast
qed

theorem edit_cycle_resets_surface_witness:
  "completesCycle deletingTracker Js (replicate 105 CHR ''a'') \<and>
   completesCycle struggleTracker Js (replicate 105 CHR ''a'') \<and>
   consecutiveEdits (codeMonitorStates deletingTracker Js) = 2 \<and>
   consecutiveEdits (codeMonitorStates struggleTracker Js) = 3 \<and>
   consecutiveEdits (codeMonitorStates
      (fst (runSignals defaultMonitoringConfig [(Js, 6000, replicate 106 CHR ''a'')]
         (fst (smartRecordCodeChange defaultMonitoringConfig 5000 Js (replicate 105 CHR ''a'')
            deletingTracker)))) Js) =
   consecutiveEdits (codeMonitorStates
      (fst (runSignals defaultMonitoringConfig [(Js, 6000, replicate 106 CHR ''a'')]
         (fst (smartRecordCodeChange defaultMonitoringConfig 4000 Js (replicate 105 CHR ''a'')
            struggleTracker)))) Js)"
proof -
  have c1: "completesCycle deletingTracker Js (replicate 105 CHR ''a'')"
    by (simp add: completesCycle_def deletingTracker_def newTracker_def createEditorState_def)
  have c2: "completesCycle struggleTracker Js (replicate 105 CHR ''a'')"
    using struggleTracker_Js by (simp add: completesCycle_def cycleView_def)
  have n1: "consecutiveEdits (codeMonitorStates deletingTracker Js) = 2"
    by (simp add: deletingTracker_def newTracker_def createEditorState_def)
  have n2: "consecutiveEdits (codeMonitorStates struggleTracker Js) = 3"
    using struggleTracker_Js by (simp add: cycleView_def)
  from edit_cycle_resets_surface
         [where ?t1.0 = deletingTracker and ?t2.0 = struggleTracker and ed = Js
            and c = "replicate 105 CHR ''a''" and cfg = defaultMonitoringConfig
            and sigs = "[(Js, 6000, replicate 106 CHR ''a'')]" and ?now1.0 = 5000 and ?now2.0 = 4000]
    c1 c2 n1 n2
  show ?thesis by blast
qed

section \<open>Properties of click records\<close>

lemma slice0_length: "0 \<le> e \<Longrightarrow> int (length (slice0 s e)) \<le> e"
  by (auto simp: slice0_def Let_def min_def)

lemma getInteractiveContent_redacted:
  "toLowerCase (tagName el) = ''input'' \<Longrightarrow> inputType el = ''password'' \<or> inputType el = ''file'' \<Longrightarrow>
     getInteractiveContent el maxLen = None"
  by (simp add: getInteractiveContent_def Let_def)

lemma getInteractiveContent_length:
  "0 \<le> maxLen \<Longrightarrow> getInteractiveContent el maxLen = Some c \<Longrightarrow>
     c \<noteq> [] \<and> int (length c) \<le> maxLen"
  using slice0_length [of maxLen]
  by (auto simp: getInteractiveContent_def Let_def split: if_splits)

lemma toLowerCase_INPUT: "toLowerCase ''INPUT'' = ''input''"
  by code_simp

lemma toLowerCase_BUTTON: "toLowerCase ''BUTTON'' = ''button''"
  by code_simp

lemma labelledButton_record:
  "buildClickRecord labelledButton 7 =
     \<lparr>tag = ''button'', interactive = True, content = Some ''Run all'', content_len = 7\<rparr>"
  by (simp add: buildClickRecord_def isInteractive_def getInteractiveContent_def labelledButton_def
      toLowerCase_BUTTON trim_def isWhitespace_def slice0_def Let_def)

text \<open>
  C8. In the record built from a click, \<open>content\<close> is set only when the target is
  interactive; a click on a password or file input gives \<open>content = null\<close>; a stored
  content has at most \<open>includeTextMaxLen\<close> characters (for a limit that is not
  negative); and \<open>content_len\<close> is the length of the stored content, 0 when there is
  none. (The \<open>catch\<close> of \<open>_getInteractiveContent\<close> also returns null.)
\<close>

theorem click_record_content:
  "(content (buildClickRecord el maxLen) \<noteq> None \<longrightarrow> interactive (buildClickRecord el maxLen)) \<and>
   interactive (buildClickRecord el maxLen) = isInteractive el \<and>
   (toLowerCase (tagName el) = ''input'' \<and> (inputType el = ''password'' \<or> inputType el = ''file'') \<longrightarrow>
      content (buildClickRecord el maxLen) = None) \<and>
   (0 \<le> maxLen \<longrightarrow>
      (\<forall>c. content (buildClickRecord el maxLen) = Some c \<longrightarrow> int (length c) \<le> maxLen)) \<and>
   content_len (buildClickRecord el maxLen) =
     (case content (buildClickRecord el maxLen) of None \<Rightarrow> 0 | Some c \<Rightarrow> int (length c))"
proof -
  have a: "content (buildClickRecord el maxLen) \<noteq> None \<longrightarrow> interactive (buildClickRecord el maxLen)"
    by (simp add: buildClickRecord_def Let_def)
  have b: "interactive (buildClickRecord el maxLen) = isInteractive el"
    by (simp add: buildClickRecord_def Let_def)
  have c: "toLowerCase (tagName el) = ''input'' \<and> (inputType el = ''password'' \<or> inputType el = ''file'') \<longrightarrow>
      content (buildClickRecord el maxLen) = None"
    using getInteractiveContent_redacted [of el maxLen]
    by (auto simp: buildClickRecord_def Let_def)
  have d: "0 \<le> maxLen \<longrightarrow>
      (\<forall>c. content (buildClickRecord el maxLen) = Some c \<longrightarrow> int (length c) \<le> maxLen)"
    using getInteractiveContent_length [of maxLen el]
    by (auto simp: buildClickRecord_def Let_def split: if_splits)
  have e: "content_len (buildClickRecord el maxLen) =
     (case content (buildClickRecord el maxLen) of None \<Rightarrow> 0 | Some c \<Rightarrow> int (length c))"
    by (simp add: buildClickRecord_def Let_def)
  from a b c d e show ?thesis by blast
qed

theorem click_record_content_witness:
  "content (buildClickRecord passwordInput 120) = None \<and>
   content (buildClickRecord labelledButton 7) = Some ''Run all'' \<and>
   int (length ''Run all'') \<le> 7 \<and>
   interactive (buildClickRecord labelledButton 7)"
proof -
  have p: "toLowerCase (tagName passwordInput) = ''input'' \<and>
     (inputType passwordInput = ''password'' \<or> inputType passwordInput = ''file'')"
    by (simp add: passwordInput_def toLowerCase_INPUT)
  have b: "content (buildClickRecord labelledButton 7) = Some ''Run all''"
    by (simp add: labelledButton_record)
  have m: "(0::int) \<le> 7" by simp
  from click_record_content [of passwordInput 120] p
  have one: "content (buildClickRecord passwordInput 120) = None" by blast
  from click_record_content [of labelledButton 7] m b
  have two: "int (length ''Run all'') \<le> 7 \<and> interactive (buildClickRecord labelledButton 7)"
    by (metis option.distinct(1))
  from one b two show ?thesis by blast
qed

section \<open>Properties of the click batch\<close>

lemma flushClickBatch_nonempty:
  "clickBatch s \<noteq> [] \<Longrightarrow>
     flushClickBatch page fin s = (emptyClickState, sendClickBatch page (clickBatch s) fin)"
  by (simp add: flushClickBatch_def emptyClickState_def Let_def)

lemma enqueueClick_first:
  "clickBatch s = [] \<Longrightarrow> clickBatchTimer s = None \<Longrightarrow> 1 < maxBatchSize cfg \<Longrightarrow>
     enqueueClick cfg page now r s =
       (\<lparr>clickBatch = [r], clickBatchTimer = Some (now + flushInterval cfg)\<rparr>, [])"
  by (simp add: enqueueClick_def Let_def)

lemma enqueueClick_pending:
  "clickBatchTimer s = Some due \<Longrightarrow> int (length (clickBatch s)) + 1 < maxBatchSize cfg \<Longrightarrow>
     enqueueClick cfg page now r s = (s\<lparr>clickBatch := clickBatch s @ [r]\<rparr>, [])"
  by (simp add: enqueueClick_def Let_def)

lemma enqueueClick_full:
  "int (length (clickBatch s)) + 1 \<ge> maxBatchSize cfg \<Longrightarrow>
     enqueueClick cfg page now r s =
       (emptyClickState, sendClickBatch page (clickBatch s @ [r]) False)"
  by (simp add: enqueueClick_def Let_def flushClickBatch_def emptyClickState_def)

lemma fireDue_not_due:
  "clickBatchTimer s = Some due \<Longrightarrow> now < due \<Longrightarrow> fireDue page now s = (s, [])"
  by (simp add: fireDue_def)

lemma fireDue_none: "clickBatchTimer s = None \<Longrightarrow> fireDue page now s = (s, [])"
  by (simp add: fireDue_def)

lemma fireDue_due:
  "clickBatchTimer s = Some due \<Longrightarrow> clickBatch s \<noteq> [] \<Longrightarrow> due \<le> now \<Longrightarrow>
     fireDue page now s =
       (emptyClickState, map (Pair due) (sendClickBatch page (clickBatch s) False))"
  by (simp add: fireDue_def flushClickBatch_nonempty)

lemma runClicks_accumulate:
  "clickBatchTimer s = Some due \<Longrightarrow> \<forall>c \<in> set cs. fst c < due \<Longrightarrow>
   int (length (clickBatch s) + length cs) < maxBatchSize cfg \<Longrightarrow>
     runClicks cfg page cs s = (s\<lparr>clickBatch := clickBatch s @ map snd cs\<rparr>, [])"
proof (induction cs arbitrary: s)
  case Nil
  then show ?case by simp
next
  case (Cons c cs)
  obtain now r where c: "c = (now, r)" by (cases c) auto
  let ?s1 = "s\<lparr>clickBatch := clickBatch s @ [r]\<rparr>"
  have nd: "fireDue page now s = (s, [])"
    using Cons.prems c by (simp add: fireDue_not_due)
  have en: "enqueueClick cfg page now r s = (?s1, [])"
    using Cons.prems by (simp add: enqueueClick_pending)
  have "runClicks cfg page cs ?s1 = (?s1\<lparr>clickBatch := clickBatch ?s1 @ map snd cs\<rparr>, [])"
    using Cons.prems by (intro Cons.IH) simp_all
  then show ?case using nd en by (simp add: c)
qed

lemma runClicks_start:
  assumes "clickBatch s = []" and "clickBatchTimer s = None"
    and "\<forall>c \<in> set rest. fst c < t1 + flushInterval cfg"
    and "int (length rest) + 1 < maxBatchSize cfg"
  shows "runClicks cfg page ((t1, r1) # rest) s =
     (\<lparr>clickBatch = r1 # map snd rest, clickBatchTimer = Some (t1 + flushInterval cfg)\<rparr>, [])"
proof -
  let ?s1 = "\<lparr>clickBatch = [r1], clickBatchTimer = Some (t1 + flushInterval cfg)\<rparr>"
  have f: "fireDue page t1 s = (s, [])" using assms(2) by (simp add: fireDue_none)
  have e: "enqueueClick cfg page t1 r1 s = (?s1, [])"
    using assms by (simp add: enqueueClick_first)
  have "runClicks cfg page rest ?s1 = (?s1\<lparr>clickBatch := clickBatch ?s1 @ map snd rest\<rparr>, [])"
    using assms by (intro runClicks_accumulate [where due = "t1 + flushInterval cfg"]) simp_all
  then show ?thesis using f e by simp
qed

lemma runClicks_append:
  "runClicks cfg page (xs @ ys) s =
     (let (s1, a1) = runClicks cfg page xs s; (s2, a2) = runClicks cfg page ys s1
      in (s2, a1 @ a2))"
  by (induction xs arbitrary: s) (auto simp: Let_def split: prod.splits)

lemma clickBatch_timer_invariant:
  assumes "(clickBatchTimer s = None) = (clickBatch s = [])"
  shows "(clickBatchTimer (fst (enqueueClick cfg page now r s)) = None) =
           (clickBatch (fst (enqueueClick cfg page now r s)) = [])"
    and "(clickBatchTimer (fst (flushClickBatch page fin s)) = None) =
           (clickBatch (fst (flushClickBatch page fin s)) = [])"
    and "(clickBatchTimer (fst (fireDue page now s)) = None) =
           (clickBatch (fst (fireDue page now s)) = [])"
  using assms
  by (auto simp: enqueueClick_def flushClickBatch_def fireDue_def Let_def split: option.splits)

lemma sixty_clicks_two_flushes:
  assumes len: "length cs = 60"
    and srt: "sorted (map fst cs)"
    and win: "\<forall>c \<in> set cs. fst c < fst (hd cs) + flushInterval cfg"
    and cap: "maxBatchSize cfg = 50"
    and hor: "fst (cs ! 50) + flushInterval cfg \<le> horizon"
  shows "runClicksUntil cfg page cs horizon emptyClickState =
     (emptyClickState,
      [(fst (cs ! 49), LogEvent ''page_click'' (PageClickData page 50 (map snd (take 50 cs)) False)),
       (fst (cs ! 50) + flushInterval cfg,
        LogEvent ''page_click'' (PageClickData page 10 (map snd (drop 50 cs)) False))])"
proof -
  let ?fi = "flushInterval cfg"
  let ?t1 = "fst (hd cs)"
  obtain r1 where hd: "hd cs = (?t1, r1)" by (cases "hd cs") auto
  have ne: "cs \<noteq> []" using len by auto
  have d49: "drop 49 cs = cs ! 49 # drop 50 cs"
    using Cons_nth_drop_Suc [of 49 cs] len by simp
  have d50: "drop 50 cs = cs ! 50 # drop 51 cs"
    using Cons_nth_drop_Suc [of 50 cs] len by simp
  have cs: "cs = take 49 cs @ [cs ! 49] @ drop 50 cs"
    using d49 append_take_drop_id [of 49 cs] by simp
  have t49: "take 49 cs = (?t1, r1) # take 48 (tl cs)"
    using ne hd by (cases cs) simp_all
  have t50: "take 50 cs = take 49 cs @ [cs ! 49]"
    using take_Suc_conv_app_nth [of 49 cs] len by simp
  have mem49: "cs ! 49 \<in> set cs" using len by simp
  have first_le: "?t1 \<le> fst (cs ! 50)"
  proof -
    have "map fst cs ! 0 \<le> map fst cs ! 50"
      using srt len by (intro sorted_nth_mono) simp_all
    then show ?thesis using len ne by (simp add: hd_conv_nth)
  qed
  \<comment> \<open>the first 49 clicks start the timer and accumulate\<close>
  let ?s1 = "\<lparr>clickBatch = r1 # map snd (take 48 (tl cs)),
              clickBatchTimer = Some (?t1 + ?fi)\<rparr>"
  have step1: "runClicks cfg page (take 49 cs) emptyClickState = (?s1, [])"
  proof -
    have "\<forall>c \<in> set (take 48 (tl cs)). fst c < ?t1 + ?fi"
      using win by (meson in_set_takeD list.set_sel(2) ne)
    moreover have "int (length (take 48 (tl cs))) + 1 < maxBatchSize cfg"
      using len cap by simp
    ultimately show ?thesis
      unfolding t49 by (intro runClicks_start) (simp_all add: emptyClickState_def)
  qed
  have b1: "clickBatch ?s1 = map snd (take 49 cs)" by (simp add: t49)
  \<comment> \<open>the 50th click reaches the size cap\<close>
  have step2: "runClicks cfg page [cs ! 49] ?s1 =
      (emptyClickState, [(fst (cs ! 49),
         LogEvent ''page_click'' (PageClickData page 50 (map snd (take 50 cs)) False))])"
  proof -
    obtain t r where c: "cs ! 49 = (t, r)" by (cases "cs ! 49") auto
    have "t < ?t1 + ?fi" using win mem49 c by force
    then have f: "fireDue page t ?s1 = (?s1, [])" by (simp add: fireDue_not_due)
    have "int (length (clickBatch ?s1)) + 1 \<ge> maxBatchSize cfg"
      using cap len by (simp add: b1)
    then have e: "enqueueClick cfg page t r ?s1 =
        (emptyClickState, sendClickBatch page (clickBatch ?s1 @ [r]) False)"
      by (rule enqueueClick_full)
    have items: "clickBatch ?s1 @ [r] = map snd (take 50 cs)"
      unfolding b1 t50 by (simp add: c)
    have e': "enqueueClick cfg page t r ?s1 =
        (emptyClickState, sendClickBatch page (map snd (take 50 cs)) False)"
      using e items by simp
    have "length (map snd (take 50 cs)) = 50" using len by simp
    then show ?thesis using f e'
      by (simp add: c sendClickBatch_def)
  qed
  \<comment> \<open>the remaining ten start a new timer\<close>
  obtain t51 r51 where c51: "cs ! 50 = (t51, r51)" by (cases "cs ! 50") auto
  let ?s3 = "\<lparr>clickBatch = r51 # map snd (drop 51 cs), clickBatchTimer = Some (t51 + ?fi)\<rparr>"
  have step3: "runClicks cfg page (drop 50 cs) emptyClickState = (?s3, [])"
  proof -
    have "\<forall>c \<in> set (drop 51 cs). fst c < t51 + ?fi"
    proof
      fix c assume "c \<in> set (drop 51 cs)"
      then have "c \<in> set cs" by (rule in_set_dropD)
      then have "fst c < ?t1 + ?fi" using win by blast
      then show "fst c < t51 + ?fi" using first_le c51 by simp
    qed
    moreover have "int (length (drop 51 cs)) + 1 < maxBatchSize cfg"
      using len cap by simp
    ultimately show ?thesis
      unfolding d50 c51 by (intro runClicks_start) (simp_all add: emptyClickState_def)
  qed
  have b3: "clickBatch ?s3 = map snd (drop 50 cs)" by (simp add: d50 c51)
  have step4: "fireDue page horizon ?s3 =
      (emptyClickState, [(t51 + ?fi,
         LogEvent ''page_click'' (PageClickData page 10 (map snd (drop 50 cs)) False))])"
  proof -
    have "t51 + ?fi \<le> horizon" using hor c51 by simp
    moreover have "length (map snd (drop 50 cs)) = 10" using len by simp
    ultimately show ?thesis
      using fireDue_due [of ?s3 "t51 + ?fi" horizon page]
      by (simp add: sendClickBatch_def d50 c51)
  qed
  have run: "runClicks cfg page cs emptyClickState =
      (?s3, [(fst (cs ! 49),
         LogEvent ''page_click'' (PageClickData page 50 (map snd (take 50 cs)) False))])"
  proof -
    have "runClicks cfg page (take 49 cs @ [cs ! 49] @ drop 50 cs) emptyClickState =
      (?s3, [(fst (cs ! 49),
         LogEvent ''page_click'' (PageClickData page 50 (map snd (take 50 cs)) False))])"
      by (simp only: runClicks_append step1 step2 step3 Let_def prod.case append_Nil append_Nil2)
    then show ?thesis using cs by simp
  qed
  show ?thesis
    by (simp only: runClicksUntil_def run step4 Let_def prod.case c51 fst_conv)
       simp
qed

text \<open>
  C5. A click that makes the buffer non-empty starts the timer, due \<open>flushInterval\<close>
  later; further clicks below the size cap leave that timer as it is, and when it is due
  the whole buffer is flushed once. A click that brings the buffer to \<open>maxBatchSize\<close>
  flushes at once, and the next click starts a new timer. Every flush empties the buffer
  and clears the timer before it hands the detached items to \<open>_sendClickBatch\<close>. So
  sixty clicks within one \<open>flushInterval\<close>, with \<open>maxBatchSize = 50\<close>, give exactly
  two flushes: the first fifty at the fiftieth click, the other ten \<open>flushInterval\<close>
  after the fifty-first.
\<close>

theorem click_batch_flush_policy:
  "(clickBatch s = [] \<and> clickBatchTimer s = None \<and> 1 < maxBatchSize cfg \<longrightarrow>
      enqueueClick cfg page now r s =
        (\<lparr>clickBatch = [r], clickBatchTimer = Some (now + flushInterval cfg)\<rparr>, [])) \<and>
   (clickBatchTimer s = Some due \<and> int (length (clickBatch s)) + 1 < maxBatchSize cfg \<longrightarrow>
      enqueueClick cfg page now r s = (s\<lparr>clickBatch := clickBatch s @ [r]\<rparr>, [])) \<and>
   (int (length (clickBatch s)) + 1 \<ge> maxBatchSize cfg \<longrightarrow>
      enqueueClick cfg page now r s =
        (emptyClickState, sendClickBatch page (clickBatch s @ [r]) False)) \<and>
   (clickBatchTimer s = Some due \<and> clickBatch s \<noteq> [] \<and> due \<le> now \<longrightarrow>
      fireDue page now s =
        (emptyClickState, map (Pair due) (sendClickBatch page (clickBatch s) False))) \<and>
   (clickBatch s \<noteq> [] \<longrightarrow>
      flushClickBatch page fin s = (emptyClickState, sendClickBatch page (clickBatch s) fin)) \<and>
   (length cs = 60 \<and> sorted (map fst cs) \<and>
    (\<forall>c \<in> set cs. fst c < fst (hd cs) + flushInterval cfg) \<and>
    maxBatchSize cfg = 50 \<and> fst (cs ! 50) + flushInterval cfg \<le> horizon \<longrightarrow>
      runClicksUntil cfg page cs horizon emptyClickState =
        (emptyClickState,
         [(fst (cs ! 49),
           LogEvent ''page_click'' (PageClickData page 50 (map snd (take 50 cs)) False)),
          (fst (cs ! 50) + flushInterval cfg,
           LogEvent ''page_click'' (PageClickData page 10 (map snd (drop 50 cs)) False))]))"
  using enqueueClick_first [of s cfg page now r] enqueueClick_pending [of s due cfg page now r]
    enqueueClick_full [of cfg s page now r] fireDue_due [of s due now page]
    flushClickBatch_nonempty [of s page fin]
    sixty_clicks_two_flushes [of cs cfg horizon page]
  by blast

theorem click_batch_flush_policy_witness:
  "runClicksUntil defaultClickConfig ''/learn'' sixtyClicks 2000 emptyClickState =
     (emptyClickState,
      [(490, LogEvent ''page_click''
               (PageClickData ''/learn'' 50 (map snd (take 50 sixtyClicks)) False)),
       (1700, LogEvent ''page_click''
                (PageClickData ''/learn'' 10 (map snd (drop 50 sixtyClicks)) False))])"
proof -
  have h1: "length sixtyClicks = 60" by (simp add: sixtyClicks_def)
  have m: "map fst sixtyClicks = map (\<lambda>i. 10 * int i) [0..<60]"
    by (simp add: sixtyClicks_def comp_def)
  have h2: "sorted (map fst sixtyClicks)"
    unfolding m by (simp add: sorted_map sorted_wrt_iff_nth_less)
  have hd: "fst (hd sixtyClicks) = 0" by (simp add: sixtyClicks_def hd_map upt_conv_Cons)
  have fi: "flushInterval defaultClickConfig = 1200" "maxBatchSize defaultClickConfig = 50"
    by (simp_all add: defaultClickConfig_def)
  have h3: "\<forall>c \<in> set sixtyClicks. fst c < fst (hd sixtyClicks) + flushInterval defaultClickConfig"
    unfolding hd fi by (auto simp: sixtyClicks_def)
  have n49: "fst (sixtyClicks ! 49) = 490" by (simp add: sixtyClicks_def)
  have n50: "fst (sixtyClicks ! 50) = 500" by (simp add: sixtyClicks_def)
  have h5: "fst (sixtyClicks ! 50) + flushInterval defaultClickConfig \<le> 2000"
    unfolding n50 fi by simp
  from click_batch_flush_policy
         [where cs = sixtyClicks and cfg = defaultClickConfig and horizon = 2000
            and page = "''/learn''"]
    h1 h2 h3 fi(2) h5
  have "runClicksUntil defaultClickConfig ''/learn'' sixtyClicks 2000 emptyClickState =
        (emptyClickState,
         [(fst (sixtyClicks ! 49),
           LogEvent ''page_click'' (PageClickData ''/learn'' 50 (map snd (take 50 sixtyClicks)) False)),
          (fst (sixtyClicks ! 50) + flushInterval defaultClickConfig,
           LogEvent ''page_click'' (PageClickData ''/learn'' 10 (map snd (drop 50 sixtyClicks)) False))])"
    by blast
  then show ?thesis unfolding n49 n50 fi by simp
qed

lemma enqueueClick_hot_never_reschedules:
  "clickBatchTimer s = Some due \<Longrightarrow> lastFlushAt s \<le> now \<Longrightarrow>
   int (length (clickBatch s)) + 1 < maxBatchSize cfg \<Longrightarrow>
     clickBatchTimer (fst (enqueueClick_hot cfg page now r isFrequent s)) = Some due"
  by (simp add: enqueueClick_hot_def Let_def)

text \<open>
  C6 fails on the code: \<open>_enqueueClick\<close> compares \<open>now + interval\<close> with
  \<open>_lastFlushAt + interval\<close>, which holds only when the clock is behind the last flush,
  so a pending timer is never rescheduled. With the defaults, a click outside the frequent
  area at 1000 starts a timer due at 2500; a click inside it at 1100 leaves the timer due
  at 2500, not at 1600.
\<close>

theorem hot_click_keeps_slow_timer:
  "clickBatchTimer (fst (enqueueClick_hot defaultClickConfig_hot ''/learn'' 1000 plainClick False
      emptyClickState_hot)) = Some 2500 \<and>
   clickBatchTimer (fst (enqueueClick_hot defaultClickConfig_hot ''/learn'' 1100 plainClick True
      (fst (enqueueClick_hot defaultClickConfig_hot ''/learn'' 1000 plainClick False
         emptyClickState_hot)))) = Some 2500 \<and>
   1100 + frequentFlushInterval defaultClickConfig_hot = 1600"
  by (simp add: enqueueClick_hot_def defaultClickConfig_hot_def emptyClickState_hot_def Let_def)

section \<open>Properties of the idle and hint scheduler\<close>

lemma computeHintDelay_nonneg: "0 \<le> computeHintDelay s"
  by (simp add: computeHintDelay_def Let_def split: option.splits)

lemma computeHintDelay_updates [simp]:
  "computeHintDelay (s\<lparr>idleTimer := a\<rparr>) = computeHintDelay s"
  "computeHintDelay (s\<lparr>idleHintTimer := a\<rparr>) = computeHintDelay s"
  "computeHintDelay (s\<lparr>idleStartTs := a\<rparr>) = computeHintDelay s"
  "computeHintDelay (s\<lparr>lastActivityTs := b\<rparr>) = computeHintDelay s"
  by (simp_all add: computeHintDelay_def cong: option.case_cong)

lemma computeHintDelay_schedule [simp]:
  "computeHintDelay (scheduleIdleAndHint t0 s) = computeHintDelay s"
  by (simp add: scheduleIdleAndHint_def)

lemma idle_then_hint:
  assumes none: "idleStartTs s = None"
    and msgs: "messages (idleHintConfig s) \<noteq> []"
    and cool: "t0 + idleMs s + computeHintDelay s - lastHintTs (idleHintConfig s)
                 \<ge> cooldownMs (idleHintConfig s)"
    and hor: "t0 + idleMs s + computeHintDelay s \<le> horizon"
  shows "snd (advanceIdle page horizon (scheduleIdleAndHint t0 s)) =
      [DispatchEvent (IdleHintNeeded (t0 + idleMs s + computeHintDelay s)
         (messages (idleHintConfig s) ! (idleMsgIdx s mod length (messages (idleHintConfig s))))),
       LogEvent ''idle_hint_displayed''
         (IdleHintDisplayedData
            (messages (idleHintConfig s) ! (idleMsgIdx s mod length (messages (idleHintConfig s))))
            (max 0 (t0 + idleMs s + computeHintDelay s -
                      (if t0 = 0 then t0 + idleMs s + computeHintDelay s else t0)))
            page (t0 + idleMs s + computeHintDelay s))]"
    and "idleStartTs (fst (advanceIdle page horizon (scheduleIdleAndHint t0 s))) = Some t0"
    and "idleTimer (fst (advanceIdle page horizon (scheduleIdleAndHint t0 s))) = None"
    and "idleHintTimer (fst (advanceIdle page horizon (scheduleIdleAndHint t0 s))) = None"
proof -
  let ?d = "computeHintDelay s"
  let ?s0 = "scheduleIdleAndHint t0 s"
  let ?s1 = "idleTimerFires (t0 + idleMs s) ?s0"
  have due1: "t0 + idleMs s \<le> horizon" using hor computeHintDelay_nonneg [of s] by linarith
  have s1: "?s1 = ?s0\<lparr>idleTimer := None, idleStartTs := Some t0,
                      idleHintTimer := Some (t0 + idleMs s + ?d)\<rparr>"
    using none by (simp add: idleTimerFires_def Let_def scheduleIdleAndHint_def)
  have t: "idleTimer ?s0 = Some (t0 + idleMs s)" by (simp add: scheduleIdleAndHint_def)
  have inner: "(case idleTimer ?s0 of
                  Some due \<Rightarrow> if due \<le> horizon then idleTimerFires due ?s0 else ?s0
                | None \<Rightarrow> ?s0) = ?s1"
    unfolding t using due1 by simp
  have h: "idleHintTimer ?s1 = Some (t0 + idleMs s + ?d)" by (simp add: s1)
  have adv: "advanceIdle page horizon ?s0 = hintTimerFires page (t0 + idleMs s + ?d) ?s1"
    unfolding advanceIdle_def Let_def inner h using hor by simp
  have hint: "hintTimerFires page (t0 + idleMs s + ?d) ?s1 =
      maybeShowIdleHint page (t0 + idleMs s + ?d) (?s1\<lparr>idleHintTimer := None\<rparr>)"
    by (simp add: hintTimerFires_def Let_def s1)
  have e3: "?s1\<lparr>idleHintTimer := None\<rparr> =
      ?s0\<lparr>idleTimer := None, idleStartTs := Some t0, idleHintTimer := None\<rparr>"
    by (simp add: s1)
  have res: "advanceIdle page horizon ?s0 =
      maybeShowIdleHint page (t0 + idleMs s + ?d)
        (?s0\<lparr>idleTimer := None, idleStartTs := Some t0, idleHintTimer := None\<rparr>)"
    by (simp only: adv hint e3)
  show "snd (advanceIdle page horizon ?s0) =
      [DispatchEvent (IdleHintNeeded (t0 + idleMs s + ?d)
         (messages (idleHintConfig s) ! (idleMsgIdx s mod length (messages (idleHintConfig s))))),
       LogEvent ''idle_hint_displayed''
         (IdleHintDisplayedData
            (messages (idleHintConfig s) ! (idleMsgIdx s mod length (messages (idleHintConfig s))))
            (max 0 (t0 + idleMs s + ?d - (if t0 = 0 then t0 + idleMs s + ?d else t0)))
            page (t0 + idleMs s + ?d))]"
    unfolding res using msgs cool
    by (simp add: maybeShowIdleHint_def Let_def scheduleIdleAndHint_def)
  show "idleStartTs (fst (advanceIdle page horizon ?s0)) = Some t0"
    unfolding res using msgs cool
    by (simp add: maybeShowIdleHint_def Let_def scheduleIdleAndHint_def)
  show "idleTimer (fst (advanceIdle page horizon ?s0)) = None"
    unfolding res using msgs cool
    by (simp add: maybeShowIdleHint_def Let_def scheduleIdleAndHint_def)
  show "idleHintTimer (fst (advanceIdle page horizon ?s0)) = None"
    unfolding res using msgs cool
    by (simp add: maybeShowIdleHint_def Let_def scheduleIdleAndHint_def)
qed

lemma advanceIdle_no_timers:
  "idleTimer s = None \<Longrightarrow> idleHintTimer s = None \<Longrightarrow> advanceIdle page later s = (s, [])"
  by (simp add: advanceIdle_def)

lemma activity_before_idle:
  assumes "idleStartTs s = None" and "now < t0 + idleMs s"
  shows "snd (runIdle page [(now, hidden, Activity src)] (scheduleIdleAndHint t0 s)) = []"
proof -
  have "advanceIdle page now (scheduleIdleAndHint t0 s) = (scheduleIdleAndHint t0 s, [])"
    using assms by (simp add: advanceIdle_def scheduleIdleAndHint_def)
  moreover have "snd (onActivity page hidden src now (scheduleIdleAndHint t0 s)) = []"
    using assms by (simp add: onActivity_def scheduleIdleAndHint_def)
  ultimately show ?thesis by (simp add: case_prod_beta)
qed

lemma idle_session_closed:
  assumes "idleStartTs s = Some st"
  shows "snd (onActivity page hidden src now s) =
           [LogEvent ''user_idle'' (UserIdleData (now - st) st now (\<not> hidden) page src)]"
    and "idleStartTs (fst (onActivity page hidden src now s)) = None"
    and "snd (onPageHide page hidden now s) =
           [LogEvent ''user_idle'' (UserIdleData (now - st) st now (\<not> hidden) page ''pagehide'')]"
    and "idleStartTs (fst (onPageHide page hidden now s)) = None"
  using assms by (simp_all add: onActivity_def onPageHide_def scheduleIdleAndHint_def)

lemma onActivity_post_state:
  "fst (onActivity page hidden src now s) = scheduleIdleAndHint now (s\<lparr>idleStartTs := None\<rparr>)"
  by (cases "idleStartTs s") (simp_all add: onActivity_def scheduleIdleAndHint_def)

lemma onActivity_restarts_timers:
  "idleTimer (fst (onActivity page hidden src now s)) = Some (now + idleMs s)"
  "idleHintTimer (fst (onActivity page hidden src now s)) = None"
  "lastActivityTs (fst (onActivity page hidden src now s)) = now"
  "idleStartTs (fst (onActivity page hidden src now s)) = None"
  by (simp_all add: onActivity_post_state scheduleIdleAndHint_def)

lemma onPageHide_post_state:
  "fst (onPageHide page hidden now s) = s\<lparr>idleStartTs := None\<rparr>"
  by (cases "idleStartTs s") (simp_all add: onPageHide_def)

lemma activity_before_idle_state:
  assumes "idleStartTs s = None" and "now < t0 + idleMs s"
  shows "runIdle page [(now, hidden, Activity src)] (scheduleIdleAndHint t0 s) =
           (scheduleIdleAndHint now s, [])"
proof -
  have a: "advanceIdle page now (scheduleIdleAndHint t0 s) = (scheduleIdleAndHint t0 s, [])"
    using assms by (simp add: advanceIdle_def scheduleIdleAndHint_def)
  have b: "onActivity page hidden src now (scheduleIdleAndHint t0 s) = (scheduleIdleAndHint now s, [])"
    using assms by (simp add: onActivity_def scheduleIdleAndHint_def)
  show ?thesis by (simp add: a b)
qed

lemma staysActive_run:
  "idleStartTs s = None \<Longrightarrow> staysActive t0 (idleMs s) evs \<Longrightarrow>
     runIdle page evs (scheduleIdleAndHint t0 s) = (scheduleIdleAndHint (lastTime t0 evs) s, [])"
proof (induction evs arbitrary: t0)
  case Nil
  then show ?case by (simp add: lastTime_def)
next
  case (Cons e evs)
  obtain now hidden ev where e: "e = (now, hidden, ev)" by (cases e) auto
  from Cons.prems(2) obtain src where ev: "ev = Activity src"
    and lt: "now < t0 + idleMs s" and rest: "staysActive now (idleMs s) evs"
    by (auto simp: e split: idle_event.splits)
  have a: "advanceIdle page now (scheduleIdleAndHint t0 s) = (scheduleIdleAndHint t0 s, [])"
    using lt by (simp add: advanceIdle_def scheduleIdleAndHint_def)
  have b: "onActivity page hidden src now (scheduleIdleAndHint t0 s) = (scheduleIdleAndHint now s, [])"
    using Cons.prems(1) by (simp add: onActivity_def scheduleIdleAndHint_def)
  have ih: "runIdle page evs (scheduleIdleAndHint now s) =
      (scheduleIdleAndHint (lastTime now evs) s, [])"
    by (rule Cons.IH [OF Cons.prems(1) rest])
  have lt': "lastTime now evs = lastTime t0 (e # evs)"
    by (simp add: lastTime_def e)
  show ?case by (simp add: e ev a b ih lt')
qed

text \<open>
  C9. After an activity at \<open>t0\<close> with no idle session open: when nothing happens
  for \<open>idleMs\<close> and then for the hint delay, the cooldown since the last hint has
  elapsed by then and the list of hint messages is not empty (the tracker's own list has
  five), the passing of time gives exactly one hint notification and one
  \<open>idle_hint_displayed\<close> event, the idle session has started at \<open>t0\<close>, and no later
  passing of time gives anything more. An activity before \<open>t0 + idleMs\<close> gives no event
  and restarts the timers from its own time, and so does every run of activities that
  each come before the idle timer of the one before is due: no \<open>user_idle\<close> in that
  window. Every activity leaves the idle timer due \<open>idleMs\<close> later, no hint timer and
  no session open. With an idle session open since \<open>st\<close>, an activity at \<open>now\<close>, or
  the page being hidden, closes the session and gives exactly one \<open>user_idle\<close> event
  with start \<open>st\<close>, end \<open>now\<close> and duration \<open>now - st\<close>; with none open they give
  no event.
\<close>

theorem idle_lifecycle:
  "(idleStartTs s = None \<and> messages (idleHintConfig s) \<noteq> [] \<and>
    cooldownMs (idleHintConfig s)
      \<le> t0 + idleMs s + computeHintDelay s - lastHintTs (idleHintConfig s) \<and>
    t0 + idleMs s + computeHintDelay s \<le> horizon \<longrightarrow>
      snd (advanceIdle page horizon (scheduleIdleAndHint t0 s)) =
        [DispatchEvent (IdleHintNeeded (t0 + idleMs s + computeHintDelay s)
           (messages (idleHintConfig s) ! (idleMsgIdx s mod length (messages (idleHintConfig s))))),
         LogEvent ''idle_hint_displayed''
           (IdleHintDisplayedData
              (messages (idleHintConfig s) ! (idleMsgIdx s mod length (messages (idleHintConfig s))))
              (max 0 (t0 + idleMs s + computeHintDelay s -
                        (if t0 = 0 then t0 + idleMs s + computeHintDelay s else t0)))
              page (t0 + idleMs s + computeHintDelay s))] \<and>
      idleStartTs (fst (advanceIdle page horizon (scheduleIdleAndHint t0 s))) = Some t0 \<and>
      (\<forall>later. snd (advanceIdle page later
                 (fst (advanceIdle page horizon (scheduleIdleAndHint t0 s)))) = [])) \<and>
   (idleStartTs s = None \<and> now < t0 + idleMs s \<longrightarrow>
      runIdle page [(now, hidden, Activity src)] (scheduleIdleAndHint t0 s) =
        (scheduleIdleAndHint now s, [])) \<and>
   (idleStartTs s = None \<and> staysActive t0 (idleMs s) evs \<longrightarrow>
      runIdle page evs (scheduleIdleAndHint t0 s) =
        (scheduleIdleAndHint (lastTime t0 evs) s, [])) \<and>
   (fst (onActivity page hidden src now s) =
      scheduleIdleAndHint now (s\<lparr>idleStartTs := None\<rparr>) \<and>
    idleTimer (fst (onActivity page hidden src now s)) = Some (now + idleMs s) \<and>
    idleHintTimer (fst (onActivity page hidden src now s)) = None \<and>
    idleStartTs (fst (onActivity page hidden src now s)) = None) \<and>
   (idleStartTs s = None \<longrightarrow>
      snd (onActivity page hidden src now s) = [] \<and> snd (onPageHide page hidden now s) = []) \<and>
   (idleStartTs s = Some st \<longrightarrow>
      snd (onActivity page hidden src now s) =
        [LogEvent ''user_idle'' (UserIdleData (now - st) st now (\<not> hidden) page src)] \<and>
      idleStartTs (fst (onActivity page hidden src now s)) = None \<and>
      snd (onPageHide page hidden now s) =
        [LogEvent ''user_idle'' (UserIdleData (now - st) st now (\<not> hidden) page ''pagehide'')] \<and>
      idleStartTs (fst (onPageHide page hidden now s)) = None \<and>
      fst (onPageHide page hidden now s) = s\<lparr>idleStartTs := None\<rparr>)"
proof -
  have c1: "idleStartTs s = None \<and> messages (idleHintConfig s) \<noteq> [] \<and>
    cooldownMs (idleHintConfig s)
      \<le> t0 + idleMs s + computeHintDelay s - lastHintTs (idleHintConfig s) \<and>
    t0 + idleMs s + computeHintDelay s \<le> horizon \<longrightarrow>
      snd (advanceIdle page horizon (scheduleIdleAndHint t0 s)) =
        [DispatchEvent (IdleHintNeeded (t0 + idleMs s + computeHintDelay s)
           (messages (idleHintConfig s) ! (idleMsgIdx s mod length (messages (idleHintConfig s))))),
         LogEvent ''idle_hint_displayed''
           (IdleHintDisplayedData
              (messages (idleHintConfig s) ! (idleMsgIdx s mod length (messages (idleHintConfig s))))
              (max 0 (t0 + idleMs s + computeHintDelay s -
                        (if t0 = 0 then t0 + idleMs s + computeHintDelay s else t0)))
              page (t0 + idleMs s + computeHintDelay s))] \<and>
      idleStartTs (fst (advanceIdle page horizon (scheduleIdleAndHint t0 s))) = Some t0 \<and>
      (\<forall>later. snd (advanceIdle page later
                 (fst (advanceIdle page horizon (scheduleIdleAndHint t0 s)))) = [])"
  proof (intro impI)
    assume a: "idleStartTs s = None \<and> messages (idleHintConfig s) \<noteq> [] \<and>
      cooldownMs (idleHintConfig s)
        \<le> t0 + idleMs s + computeHintDelay s - lastHintTs (idleHintConfig s) \<and>
      t0 + idleMs s + computeHintDelay s \<le> horizon"
    then have n: "idleStartTs s = None" and m: "messages (idleHintConfig s) \<noteq> []"
      and c: "cooldownMs (idleHintConfig s)
        \<le> t0 + idleMs s + computeHintDelay s - lastHintTs (idleHintConfig s)"
      and h: "t0 + idleMs s + computeHintDelay s \<le> horizon" by simp_all
    have q: "\<forall>later. snd (advanceIdle page later
                 (fst (advanceIdle page horizon (scheduleIdleAndHint t0 s)))) = []"
      using advanceIdle_no_timers [OF idle_then_hint(3) [OF n m c h] idle_then_hint(4) [OF n m c h]]
      by simp
    show "snd (advanceIdle page horizon (scheduleIdleAndHint t0 s)) =
        [DispatchEvent (IdleHintNeeded (t0 + idleMs s + computeHintDelay s)
           (messages (idleHintConfig s) ! (idleMsgIdx s mod length (messages (idleHintConfig s))))),
         LogEvent ''idle_hint_displayed''
           (IdleHintDisplayedData
              (messages (idleHintConfig s) ! (idleMsgIdx s mod length (messages (idleHintConfig s))))
              (max 0 (t0 + idleMs s + computeHintDelay s -
                        (if t0 = 0 then t0 + idleMs s + computeHintDelay s else t0)))
              page (t0 + idleMs s + computeHintDelay s))] \<and>
      idleStartTs (fst (advanceIdle page horizon (scheduleIdleAndHint t0 s))) = Some t0 \<and>
      (\<forall>later. snd (advanceIdle page later
                 (fst (advanceIdle page horizon (scheduleIdleAndHint t0 s)))) = [])"
      by (intro conjI idle_then_hint(1) [OF n m c h] idle_then_hint(2) [OF n m c h] q)
  qed
  have c2: "idleStartTs s = None \<and> now < t0 + idleMs s \<longrightarrow>
      runIdle page [(now, hidden, Activity src)] (scheduleIdleAndHint t0 s) =
        (scheduleIdleAndHint now s, [])"
    using activity_before_idle_state [of s now t0 page hidden src] by blast
  have c3: "idleStartTs s = None \<and> staysActive t0 (idleMs s) evs \<longrightarrow>
      runIdle page evs (scheduleIdleAndHint t0 s) =
        (scheduleIdleAndHint (lastTime t0 evs) s, [])"
    using staysActive_run [of s t0 evs page] by blast
  have c4: "fst (onActivity page hidden src now s) =
      scheduleIdleAndHint now (s\<lparr>idleStartTs := None\<rparr>) \<and>
    idleTimer (fst (onActivity page hidden src now s)) = Some (now + idleMs s) \<and>
    idleHintTimer (fst (onActivity page hidden src now s)) = None \<and>
    idleStartTs (fst (onActivity page hidden src now s)) = None"
    by (intro conjI onActivity_post_state onActivity_restarts_timers)
  have c5: "idleStartTs s = None \<longrightarrow>
      snd (onActivity page hidden src now s) = [] \<and> snd (onPageHide page hidden now s) = []"
    by (simp add: onActivity_def onPageHide_def)
  have c6: "idleStartTs s = Some st \<longrightarrow>
      snd (onActivity page hidden src now s) =
        [LogEvent ''user_idle'' (UserIdleData (now - st) st now (\<not> hidden) page src)] \<and>
      idleStartTs (fst (onActivity page hidden src now s)) = None \<and>
      snd (onPageHide page hidden now s) =
        [LogEvent ''user_idle'' (UserIdleData (now - st) st now (\<not> hidden) page ''pagehide'')] \<and>
      idleStartTs (fst (onPageHide page hidden now s)) = None \<and>
      fst (onPageHide page hidden now s) = s\<lparr>idleStartTs := None\<rparr>"
  proof (intro impI)
    assume b: "idleStartTs s = Some st"
    show "snd (onActivity page hidden src now s) =
        [LogEvent ''user_idle'' (UserIdleData (now - st) st now (\<not> hidden) page src)] \<and>
      idleStartTs (fst (onActivity page hidden src now s)) = None \<and>
      snd (onPageHide page hidden now s) =
        [LogEvent ''user_idle'' (UserIdleData (now - st) st now (\<not> hidden) page ''pagehide'')] \<and>
      idleStartTs (fst (onPageHide page hidden now s)) = None \<and>
      fst (onPageHide page hidden now s) = s\<lparr>idleStartTs := None\<rparr>"
      by (intro conjI idle_session_closed(1) [OF b] idle_session_closed(2) [OF b]
          idle_session_closed(3) [OF b] idle_session_closed(4) [OF b] onPageHide_post_state)
  qed
  show ?thesis
    by (rule conjI [OF c1 conjI [OF c2 conjI [OF c3 conjI [OF c4 conjI [OF c5 c6]]]]])
qed

theorem idle_lifecycle_witness:
  "snd (advanceIdle ''/learn'' 30000 (scheduleIdleAndHint 20000 (newIdleState 0))) =
     [DispatchEvent (IdleHintNeeded 24000 ''hint 1''),
      LogEvent ''idle_hint_displayed'' (IdleHintDisplayedData ''hint 1'' 4000 ''/learn'' 24000)] \<and>
   snd (advanceIdle ''/learn'' 30000 (scheduleIdleAndHint 20000 delayedHintState)) =
     [DispatchEvent (IdleHintNeeded 27000 ''hint 1''),
      LogEvent ''idle_hint_displayed'' (IdleHintDisplayedData ''hint 1'' 7000 ''/learn'' 27000)] \<and>
   runIdle ''/learn'' [(23000, False, Activity ''keydown''), (24500, False, Activity ''click'')]
          (scheduleIdleAndHint 20000 (newIdleState 0)) =
     (scheduleIdleAndHint 24500 (newIdleState 0), []) \<and>
   snd (onActivity ''/learn'' False ''keydown'' 31000
          (fst (advanceIdle ''/learn'' 30000 (scheduleIdleAndHint 20000 (newIdleState 0))))) =
     [LogEvent ''user_idle'' (UserIdleData 11000 20000 31000 True ''/learn'' ''keydown'')]"
proof -
  let ?s = "newIdleState 0"
  let ?d = "delayedHintState"
  have d: "computeHintDelay ?s = 0"
    by (simp add: computeHintDelay_def newIdleState_def defaultIdleHintConfig_def)
  have f: "idleStartTs ?s = None" "idleMs ?s = 4000" "idleMsgIdx ?s = 0"
    "messages (idleHintConfig ?s) = [''hint 1'', ''hint 2'', ''hint 3'', ''hint 4'', ''hint 5'']"
    "cooldownMs (idleHintConfig ?s) = 18000" "lastHintTs (idleHintConfig ?s) = 0"
    by (simp_all add: newIdleState_def defaultIdleHintConfig_def)
  have dd: "computeHintDelay ?d = 3000"
    by (simp add: computeHintDelay_def delayedHintState_def newIdleState_def
        defaultIdleHintConfig_def)
  have fd: "idleStartTs ?d = None" "idleMs ?d = 4000" "idleMsgIdx ?d = 0"
    "messages (idleHintConfig ?d) = [''hint 1'', ''hint 2'', ''hint 3'', ''hint 4'', ''hint 5'']"
    "cooldownMs (idleHintConfig ?d) = 18000" "lastHintTs (idleHintConfig ?d) = 0"
    by (simp_all add: delayedHintState_def newIdleState_def defaultIdleHintConfig_def)
  have p1: "idleStartTs ?s = None \<and> messages (idleHintConfig ?s) \<noteq> [] \<and>
    cooldownMs (idleHintConfig ?s)
      \<le> 20000 + idleMs ?s + computeHintDelay ?s - lastHintTs (idleHintConfig ?s) \<and>
    20000 + idleMs ?s + computeHintDelay ?s \<le> 30000"
    by (simp add: f d)
  have p1d: "idleStartTs ?d = None \<and> messages (idleHintConfig ?d) \<noteq> [] \<and>
    cooldownMs (idleHintConfig ?d)
      \<le> 20000 + idleMs ?d + computeHintDelay ?d - lastHintTs (idleHintConfig ?d) \<and>
    20000 + idleMs ?d + computeHintDelay ?d \<le> 30000"
    by (simp add: fd dd)
  have p3: "idleStartTs ?s = None \<and>
      staysActive 20000 (idleMs ?s)
        [(23000, False, Activity ''keydown''), (24500, False, Activity ''click'')]"
    by (simp add: f)
  note one = idle_lifecycle [where s = ?s and ?t0.0 = 20000 and horizon = 30000
      and page = "''/learn''"
      and evs = "[(23000, False, Activity ''keydown''), (24500, False, Activity ''click'')]"]
  from one p1 have a: "snd (advanceIdle ''/learn'' 30000 (scheduleIdleAndHint 20000 ?s)) =
     [DispatchEvent (IdleHintNeeded 24000 ''hint 1''),
      LogEvent ''idle_hint_displayed'' (IdleHintDisplayedData ''hint 1'' 4000 ''/learn'' 24000)]"
    by (simp add: f d)
  from one p1 have st: "idleStartTs (fst (advanceIdle ''/learn'' 30000 (scheduleIdleAndHint 20000 ?s)))
      = Some 20000" by blast
  from one p3 have b: "runIdle ''/learn''
        [(23000, False, Activity ''keydown''), (24500, False, Activity ''click'')]
        (scheduleIdleAndHint 20000 ?s) =
      (scheduleIdleAndHint (lastTime 20000
         [(23000, False, Activity ''keydown''), (24500, False, Activity ''click'')]) ?s, [])"
    by blast
  have b': "runIdle ''/learn''
        [(23000, False, Activity ''keydown''), (24500, False, Activity ''click'')]
        (scheduleIdleAndHint 20000 ?s) = (scheduleIdleAndHint 24500 ?s, [])"
    using b by (simp add: lastTime_def)
  from idle_lifecycle [where s = ?d and ?t0.0 = 20000 and horizon = 30000
      and page = "''/learn''"] p1d
  have ad: "snd (advanceIdle ''/learn'' 30000 (scheduleIdleAndHint 20000 ?d)) =
     [DispatchEvent (IdleHintNeeded 27000 ''hint 1''),
      LogEvent ''idle_hint_displayed'' (IdleHintDisplayedData ''hint 1'' 7000 ''/learn'' 27000)]"
    by (simp add: fd dd)
  from idle_lifecycle [where s = "fst (advanceIdle ''/learn'' 30000 (scheduleIdleAndHint 20000 ?s))"
      and st = 20000 and page = "''/learn''" and now = 31000 and hidden = False
      and src = "''keydown''"] st
  have c: "snd (onActivity ''/learn'' False ''keydown'' 31000
          (fst (advanceIdle ''/learn'' 30000 (scheduleIdleAndHint 20000 ?s)))) =
     [LogEvent ''user_idle'' (UserIdleData 11000 20000 31000 True ''/learn'' ''keydown'')]"
    by simp
  show ?thesis by (rule conjI [OF a conjI [OF ad conjI [OF b' c]]])
qed

text \<open>
  The list of hint messages can be replaced through the configuration; with an empty one
  \<open>_maybeShowIdleHint\<close> returns before it shows anything, so the idle session opens and
  both timers run without a hint.
\<close>

lemma idle_hint_needs_a_message:
  "idleStartTs noMessagesState = None \<and>
   cooldownMs (idleHintConfig noMessagesState)
     \<le> 20000 + idleMs noMessagesState + computeHintDelay noMessagesState
          - lastHintTs (idleHintConfig noMessagesState) \<and>
   20000 + idleMs noMessagesState + computeHintDelay noMessagesState \<le> 30000 \<and>
   snd (advanceIdle ''/learn'' 30000 (scheduleIdleAndHint 20000 noMessagesState)) = [] \<and>
   idleStartTs (fst (advanceIdle ''/learn'' 30000 (scheduleIdleAndHint 20000 noMessagesState)))
     = Some 20000 \<and>
   idleHintTimer (fst (advanceIdle ''/learn'' 30000 (scheduleIdleAndHint 20000 noMessagesState)))
     = None"
  by (simp add: noMessagesState_def newIdleState_def defaultIdleHintConfig_def
      computeHintDelay_def scheduleIdleAndHint_def advanceIdle_def idleTimerFires_def
      hintTimerFires_def maybeShowIdleHint_def Let_def)

end
